theory Spec2Isabelle
  imports Main "HOL-Library.Word"
begin

unbundle bit_operations_syntax

chapter \<open>MPEG-2 transport stream to fragmented MP4: a shallow embedding\<close>

text \<open>
  The definitions below follow \<^verbatim>\<open>src/lib/m2ts/m2ts.js\<close>,
  \<^verbatim>\<open>src/lib/mp4/transmuxer/videoSegmentStream.js\<close> and
  \<^verbatim>\<open>src/lib/mp4/transmuxer/coalesceStream.js\<close>. A stream object becomes a
  record of its fields; \<^verbatim>\<open>push\<close> and \<^verbatim>\<open>flush\<close> take the record and return
  the list of events triggered, in order, together with the updated record. A thrown
  exception is the \<open>Inl\<close> branch of a sum.
\<close>

section \<open>Bytes and typed arrays\<close>

type_synonym byte = "8 word"
type_synonym bytes = "byte list"

text \<open>\<^verbatim>\<open>a.subarray(begin, end)\<close> on a typed array, for indices within range.\<close>

definition subarray :: "bytes \<Rightarrow> nat \<Rightarrow> nat \<Rightarrow> bytes" where
  "subarray a b e = take (e - b) (drop b a)"

text \<open>
  \<^verbatim>\<open>target.set(source, 0)\<close>: the first bytes of the target are overwritten, the
  rest is kept. (The source never exceeds the target where the code calls it, see
  \<open>packetLoop_exit\<close>.)
\<close>

definition buffer_set :: "bytes \<Rightarrow> bytes \<Rightarrow> bytes" where
  "buffer_set target source = source @ drop (length source) target"

section \<open>TransportPacketStream\<close>

definition MP2T_PACKET_LENGTH :: nat where
  "MP2T_PACKET_LENGTH = 188"

definition SYNC_BYTE :: byte where
  "SYNC_BYTE = 0x47"

record packet_stream =
  buffer :: bytes
  bytesInBuffer :: nat

text \<open>The constructor: \<^verbatim>\<open>buffer = Buffer.alloc(188)\<close>, \<^verbatim>\<open>bytesInBuffer = 0\<close>.\<close>

definition packet_stream_init :: packet_stream where
  "packet_stream_init = \<lparr> buffer = replicate 188 0, bytesInBuffer = 0 \<rparr>"

datatype packet_event = PacketData bytes | PacketDone

text \<open>
  The \<^verbatim>\<open>while (endIndex < everything.byteLength)\<close> loop of \<^verbatim>\<open>push\<close>. The source
  moves \<^verbatim>\<open>startIndex\<close> and \<^verbatim>\<open>endIndex\<close> in lockstep, 188 apart, so the loop state is
  \<^verbatim>\<open>startIndex\<close> alone. The result is the packets emitted, in order, and the final
  \<^verbatim>\<open>startIndex\<close>.
\<close>

function packetLoop :: "bytes \<Rightarrow> nat \<Rightarrow> bytes list \<times> nat" where
  "packetLoop everything startIndex =
     (let endIndex = startIndex + MP2T_PACKET_LENGTH in
      if endIndex < length everything then
        (if everything ! startIndex = SYNC_BYTE \<and> everything ! endIndex = SYNC_BYTE
         then (case packetLoop everything (startIndex + MP2T_PACKET_LENGTH) of
                 (out, s) \<Rightarrow> (subarray everything startIndex endIndex # out, s))
         else packetLoop everything (startIndex + 1))
      else ([], startIndex))"
  by pat_completeness auto
termination
  by (relation "measure (\<lambda>(everything, startIndex). length everything - startIndex)")
     (auto simp: MP2T_PACKET_LENGTH_def)

definition packet_push :: "packet_stream \<Rightarrow> bytes \<Rightarrow> packet_event list \<times> packet_stream" where
  "packet_push st bs =
     (let everything = (if bytesInBuffer st \<noteq> 0
                        then subarray (buffer st) 0 (bytesInBuffer st) @ bs else bs);
          st1 = (if bytesInBuffer st \<noteq> 0 then st\<lparr> bytesInBuffer := 0 \<rparr> else st)
      in case packetLoop everything 0 of
           (out, startIndex) \<Rightarrow>
             (map PacketData out,
              if startIndex < length everything
              then st1\<lparr> buffer := buffer_set (buffer st1) (drop startIndex everything),
                        bytesInBuffer := length everything - startIndex \<rparr>
              else st1))"

definition packet_flush :: "packet_stream \<Rightarrow> packet_event list \<times> packet_stream" where
  "packet_flush st =
     (if bytesInBuffer st = MP2T_PACKET_LENGTH \<and> buffer st ! 0 = SYNC_BYTE
      then ([PacketData (buffer st), PacketDone], st\<lparr> bytesInBuffer := 0 \<rparr>)
      else ([PacketDone], st))"

text \<open>The invariant of the object: a 188-byte buffer of which a prefix is live.\<close>

definition packet_stream_ok :: "packet_stream \<Rightarrow> bool" where
  "packet_stream_ok st \<longleftrightarrow> length (buffer st) = 188 \<and> bytesInBuffer st \<le> 188"

text \<open>The events of \<^verbatim>\<open>push(A); push(B); flush()\<close> and of \<^verbatim>\<open>push(A || B); flush()\<close>.\<close>

definition push_push_flush :: "packet_stream \<Rightarrow> bytes \<Rightarrow> bytes \<Rightarrow> packet_event list" where
  "push_push_flush st A B =
     (case packet_push st A of (e1, s1) \<Rightarrow>
      case packet_push s1 B of (e2, s2) \<Rightarrow>
      case packet_flush s2 of (e3, s3) \<Rightarrow> e1 @ e2 @ e3)"

definition push_flush :: "packet_stream \<Rightarrow> bytes \<Rightarrow> packet_event list" where
  "push_flush st A =
     (case packet_push st A of (e1, s1) \<Rightarrow>
      case packet_flush s1 of (e2, s2) \<Rightarrow> e1 @ e2)"

text \<open>The live part of the residual buffer: its first \<^verbatim>\<open>bytesInBuffer\<close> bytes.\<close>

definition live :: "packet_stream \<Rightarrow> bytes" where
  "live st = take (bytesInBuffer st) (buffer st)"

section \<open>JavaScript reads and 32-bit operators\<close>

text \<open>
  \<^verbatim>\<open>a[i]\<close> on a typed array is \<^verbatim>\<open>undefined\<close> out of range (\<open>None\<close>). The bitwise
  operators convert their operands to 32-bit integers, \<^verbatim>\<open>undefined\<close> to 0, and work
  on 32 bits: \<open>int32\<close> is that conversion of an array read.
\<close>

datatype js_error = TypeError | RangeError | Error

definition byteAt :: "bytes \<Rightarrow> nat \<Rightarrow> byte option" where
  "byteAt a i = (if i < length a then Some (a ! i) else None)"

definition int32 :: "byte option \<Rightarrow> 32 word" where
  "int32 b = (case b of None \<Rightarrow> 0 | Some x \<Rightarrow> ucast x)"

text \<open>
  \<^verbatim>\<open>a.subarray(begin)\<close> where \<^verbatim>\<open>begin\<close> may be \<^verbatim>\<open>NaN\<close> (\<open>None\<close>), which the typed
  array reads as 0. A \<^verbatim>\<open>begin\<close> past the end gives the empty array.
\<close>

definition subarray_from :: "bytes \<Rightarrow> nat option \<Rightarrow> bytes" where
  "subarray_from a b = (case b of None \<Rightarrow> a | Some n \<Rightarrow> drop n a)"

section \<open>Stream types (the constants of stream-types)\<close>

definition PRIVATE_DATA :: nat where "PRIVATE_DATA = 0x06"
definition AUDIO_ADTS :: nat where "AUDIO_ADTS = 0x0F"
definition METADATA :: nat where "METADATA = 0x15"
definition VIDEO_H264 :: nat where "VIDEO_H264 = 0x1B"

definition isAudioStream :: "nat \<Rightarrow> bool" where
  "isAudioStream streamType \<longleftrightarrow>
     streamType \<in> set [0x03, 0x04, 0x0F, 0x11, 0x1C, 129, 135, 136]"

definition isVideoStream :: "nat \<Rightarrow> bool" where
  "isVideoStream streamType \<longleftrightarrow>
     streamType \<in> set [0x01, 0x02, 0x1B, 30, 31, 32, 33, 34, 35, 36, 0x28, 0x32, 128]"

section \<open>TransportParseStream\<close>

text \<open>
  The PMT section itself is decoded by \<^verbatim>\<open>ProgramSpecificInformation\<close> of the package
  \<^verbatim>\<open>@taktik/mpegts-tools\<close>, which is not part of this repository: the functions
  below take its result, the list \<^verbatim>\<open>psi.elementaryStreams\<close> as a function of the
  payload, as the parameter \<open>psi\<close>. An entry has the stream type, the PID and the
  descriptors \<^verbatim>\<open>esInfos\<close>, of which the code reads the fields below
  (\<open>innerData\<close> holds the \<^verbatim>\<open>language\<close> of each inner record).
\<close>

type_synonym language = "string \<times> nat"

record es_info =
  isVideo :: bool
  isAudio :: bool
  isIsoLang :: bool
  languages :: "language list"
  isSubtitling :: bool
  isTeletext :: bool
  innerData :: "string list"

record es_entry =
  es_type :: nat
  es_pid :: nat
  esInfos :: "es_info list"

datatype subtitles_type = DVB

record private_data =
  pd_type :: string
  subtitleType :: subtitles_type
  pd_language :: string

text \<open>
  \<^verbatim>\<open>programMapTable\<close>: \<^verbatim>\<open>video\<close> is a PID or \<^verbatim>\<open>null\<close>; \<^verbatim>\<open>audio\<close> is a
  \<^verbatim>\<open>Map\<close>, kept as an association list in insertion order; \<^verbatim>\<open>privateData\<close> and
  \<^verbatim>\<open>'timed-metadata'\<close> are objects keyed by PID. An object lists integer keys in
  ascending order, so \<^verbatim>\<open>privateData\<close>, whose entries are listed later, is an
  association list sorted by PID.
\<close>

record program_map =
  pm_video :: "nat option"
  pm_audio :: "(nat \<times> language list) list"
  pm_privateData :: "(nat \<times> private_data) list"
  pm_timed_metadata :: "nat \<rightharpoonup> nat"

text \<open>\<^verbatim>\<open>map.set(k, v)\<close>: an existing key keeps its place, a new one goes last.\<close>

fun map_set :: "('k \<times> 'v) list \<Rightarrow> 'k \<Rightarrow> 'v \<Rightarrow> ('k \<times> 'v) list" where
  "map_set [] k v = [(k, v)]"
| "map_set ((k', v') # m) k v = (if k' = k then (k, v) # m else (k', v') # map_set m k v)"

text \<open>\<^verbatim>\<open>obj[k] = v\<close> on an object with integer keys.\<close>

fun obj_set :: "(nat \<times> 'v) list \<Rightarrow> nat \<Rightarrow> 'v \<Rightarrow> (nat \<times> 'v) list" where
  "obj_set [] k v = [(k, v)]"
| "obj_set ((k', v') # m) k v =
     (if k' = k then (k, v) # m
      else if k < k' then (k, v) # (k', v') # m
      else (k', v') # obj_set m k v)"

definition detectVideoStream :: "bool \<Rightarrow> nat \<Rightarrow> es_info list \<Rightarrow> bool" where
  "detectVideoStream broadStreamDetection type infos =
     (if broadStreamDetection then isVideoStream type \<or> list_ex isVideo infos
      else type = VIDEO_H264)"

definition detectAudioStream :: "bool \<Rightarrow> nat \<Rightarrow> es_info list \<Rightarrow> bool" where
  "detectAudioStream broadStreamDetection type infos =
     (if broadStreamDetection then isAudioStream type \<or> list_ex isAudio infos
      else type = AUDIO_ADTS)"

definition empty_program_map :: program_map where
  "empty_program_map =
     \<lparr> pm_video = None, pm_audio = [], pm_privateData = [], pm_timed_metadata = Map.empty \<rparr>"

text \<open>The body of \<^verbatim>\<open>psi.elementaryStreams.forEach\<close> in \<^verbatim>\<open>parsePmt\<close>.\<close>

definition pmt_entry :: "bool \<Rightarrow> program_map \<Rightarrow> es_entry \<Rightarrow> program_map" where
  "pmt_entry broad pm e =
     (if detectVideoStream broad (es_type e) (esInfos e) then
        (if pm_video pm = None then pm\<lparr> pm_video := Some (es_pid e) \<rparr> else pm)
      else if detectAudioStream broad (es_type e) (esInfos e) then
        (let langs = (case find isIsoLang (esInfos e) of
                        Some languageDescriptor \<Rightarrow> languages languageDescriptor
                      | None \<Rightarrow> [])
         in pm\<lparr> pm_audio := map_set (pm_audio pm) (es_pid e) langs \<rparr>)
      else if es_type e = METADATA then
        pm\<lparr> pm_timed_metadata := (pm_timed_metadata pm)(es_pid e \<mapsto> es_type e) \<rparr>
      else if es_type e = PRIVATE_DATA then
        (case find isSubtitling (esInfos e) of
           Some subtitleDescriptor \<Rightarrow>
             (case innerData subtitleDescriptor of
                mainInnerData # _ \<Rightarrow>
                  pm\<lparr> pm_privateData := obj_set (pm_privateData pm) (es_pid e)
                        \<lparr> pd_type = ''subtitles'', subtitleType = DVB,
                          pd_language = mainInnerData \<rparr> \<rparr>
              | [] \<Rightarrow> pm)
         | None \<Rightarrow> pm)
      else pm)"

record parse_stream =
  broadStreamDetection :: bool
  pmtPid :: "nat option"
  programMapTable :: "program_map option"
  packetsWaitingForPmt :: "(bytes \<times> nat option \<times> bool \<times> nat) list"

text \<open>
  The constructor. A queued entry is \<^verbatim>\<open>[packet, offset, result]\<close>, where
  \<^verbatim>\<open>result\<close> holds \<^verbatim>\<open>payloadUnitStartIndicator\<close> and \<^verbatim>\<open>pid\<close> at that time;
  \<^verbatim>\<open>offset\<close> is \<open>None\<close> when it is \<^verbatim>\<open>NaN\<close>.
\<close>

definition parse_stream_init :: "bool \<Rightarrow> parse_stream" where
  "parse_stream_init broad =
     \<lparr> broadStreamDetection = broad, pmtPid = None, programMapTable = None,
       packetsWaitingForPmt = [] \<rparr>"

text \<open>
  \<^verbatim>\<open>parsePmt\<close>: the new value of \<^verbatim>\<open>self.programMapTable\<close>, and whether the
  \<^verbatim>\<open>pmt\<close> object got its \<^verbatim>\<open>programMapTable\<close> field.
\<close>

definition parsePmt :: "(bytes \<Rightarrow> es_entry list) \<Rightarrow> parse_stream \<Rightarrow> bytes \<Rightarrow> parse_stream \<times> program_map option" where
  "parsePmt psi st payload =
     (if int32 (byteAt payload 6) AND 0x01 = 0 then (st, None)
      else (let pm = foldl (pmt_entry (broadStreamDetection st)) empty_program_map (psi payload)
            in (st\<lparr> programMapTable := Some pm \<rparr>, Some pm)))"

text \<open>
  The objects \<^verbatim>\<open>data\<close> events carry: a PAT with \<^verbatim>\<open>section_number\<close>,
  \<^verbatim>\<open>last_section_number\<close> and \<^verbatim>\<open>pmtPid\<close>; a PMT with \<^verbatim>\<open>programMapTable\<close>
  (absent when the PMT was ignored); a PES fragment with \<^verbatim>\<open>streamType\<close>
  (\<^verbatim>\<open>undefined\<close> for an unknown PID) and \<^verbatim>\<open>data\<close>.
\<close>

record pes_fragment =
  payloadUnitStartIndicator :: bool
  pid :: nat
  streamType :: "nat option"
  fdata :: bytes

datatype parse_event =
    Pat bool nat "byte option" "byte option" nat
  | Pmt bool nat "program_map option"
  | Pes pes_fragment

text \<open>\<^verbatim>\<open>parsePat\<close> on \<^verbatim>\<open>payload.subarray(offset)\<close>.\<close>

definition parsePat_pmtPid :: "bytes \<Rightarrow> nat" where
  "parsePat_pmtPid payload =
     unat (push_bit 8 (int32 (byteAt payload 10) AND 0x1F) OR int32 (byteAt payload 11))"

text \<open>
  \<^verbatim>\<open>processPes_\<close>: it reads \<^verbatim>\<open>this.programMapTable.video\<close>, which throws a
  \<^verbatim>\<open>TypeError\<close> while \<^verbatim>\<open>programMapTable\<close> is \<^verbatim>\<open>undefined\<close>.
\<close>

definition pes_streamType :: "program_map \<Rightarrow> nat \<Rightarrow> nat option" where
  "pes_streamType pm p =
     (if pm_video pm = Some p then Some VIDEO_H264
      else if p \<in> fst ` set (pm_audio pm) then Some AUDIO_ADTS
      else if p \<in> fst ` set (pm_privateData pm) then Some PRIVATE_DATA
      else pm_timed_metadata pm p)"

definition processPes :: "parse_stream \<Rightarrow> bytes \<times> nat option \<times> bool \<times> nat \<Rightarrow> js_error + parse_event" where
  "processPes st entry =
     (case entry of (packet, offset, pusi, p) \<Rightarrow>
       (case programMapTable st of
          None \<Rightarrow> Inl TypeError
        | Some pm \<Rightarrow>
            (let t = pes_streamType pm p; d = subarray_from packet offset
             in Inr (Pes \<lparr> payloadUnitStartIndicator = pusi, pid = p, streamType = t,
                             fdata = d \<rparr>))))"

text \<open>
  The \<^verbatim>\<open>while (this.packetsWaitingForPmt.length)\<close> loop: each entry is shifted off
  the queue and processed; an exception leaves the rest of the queue in place.
\<close>

fun drainWaiting :: "parse_stream \<Rightarrow> (bytes \<times> nat option \<times> bool \<times> nat) list \<Rightarrow>
    js_error + parse_event list" where
  "drainWaiting st [] = Inr []"
| "drainWaiting st (entry # waiting) =
     (case processPes st entry of
        Inl e \<Rightarrow> Inl e
      | Inr ev \<Rightarrow> (case drainWaiting st waiting of
                      Inl e \<Rightarrow> Inl e
                    | Inr evs \<Rightarrow> Inr (ev # evs)))"

text \<open>
  The header fields \<^verbatim>\<open>push(packet)\<close> reads: \<^verbatim>\<open>payloadUnitStartIndicator\<close>, the
  13-bit \<^verbatim>\<open>pid\<close>, and the offset of the payload behind the adaptation field
  (\<^verbatim>\<open>NaN\<close>, here \<open>None\<close>, when the length byte is missing).
\<close>

definition packet_pusi :: "bytes \<Rightarrow> bool" where
  "packet_pusi packet \<longleftrightarrow> int32 (byteAt packet 1) AND 0x40 \<noteq> 0"

definition packet_pid :: "bytes \<Rightarrow> nat" where
  "packet_pid packet =
     unat (push_bit 8 (int32 (byteAt packet 1) AND 0x1f) OR int32 (byteAt packet 2))"

definition packet_offset :: "bytes \<Rightarrow> nat option" where
  "packet_offset packet =
     (if drop_bit 4 (int32 (byteAt packet 3) AND 0x30) > 0x01
      then (case byteAt packet 4 of None \<Rightarrow> None | Some l \<Rightarrow> Some (4 + unat l + 1))
      else Some 4)"

text \<open>
  \<^verbatim>\<open>parsePsi\<close>: the offset of the section in the payload, behind the pointer field
  when a section starts in this packet.
\<close>

definition psi_offset :: "bool \<Rightarrow> bytes \<Rightarrow> nat option" where
  "psi_offset pusi payload =
     (if pusi then (case byteAt payload 0 of None \<Rightarrow> None | Some l \<Rightarrow> Some (unat l + 1))
      else Some 0)"

text \<open>
  \<^verbatim>\<open>push(packet)\<close>. The result is the exception thrown, or the events triggered, in
  order, and the new state. \<^verbatim>\<open>parsePmt\<close> gets the whole payload, pointer field
  included.
\<close>

definition parse_push :: "(bytes \<Rightarrow> es_entry list) \<Rightarrow> parse_stream \<Rightarrow> bytes \<Rightarrow>
    js_error + (parse_event list \<times> parse_stream)" where
  "parse_push psi st packet =
     (let pusi = packet_pusi packet;
          p = packet_pid packet;
          offset = packet_offset packet;
          payload = subarray_from packet offset
      in if p = 0 then
           (let section = subarray_from payload (psi_offset pusi payload);
                newPid = parsePat_pmtPid section
            in Inr ([Pat pusi p (byteAt section 7) (byteAt section 8) newPid],
                    st\<lparr> pmtPid := Some newPid \<rparr>))
         else if Some p = pmtPid st then
           (case parsePmt psi st payload of
              (st1, table) \<Rightarrow>
                (case drainWaiting st1 (packetsWaitingForPmt st1) of
                   Inl e \<Rightarrow> Inl e
                 | Inr evs \<Rightarrow>
                     Inr (Pmt pusi p table # evs, st1\<lparr> packetsWaitingForPmt := [] \<rparr>)))
         else if programMapTable st = None then
           Inr ([], st\<lparr> packetsWaitingForPmt :=
                          packetsWaitingForPmt st @ [(packet, offset, pusi, p)] \<rparr>)
         else
           (case processPes st (packet, offset, pusi, p) of
              Inl e \<Rightarrow> Inl e
            | Inr ev \<Rightarrow> Inr ([ev], st)))"

text \<open>Whether \<^verbatim>\<open>detectVideoStream\<close> holds of an entry of the PMT.\<close>

definition is_video_entry :: "bool \<Rightarrow> es_entry \<Rightarrow> bool" where
  "is_video_entry broad e = detectVideoStream broad (es_type e) (esInfos e)"

text \<open>
  What \<^verbatim>\<open>processPes_\<close> triggers for a queued entry under the program map \<open>pm\<close>.
\<close>

definition forwarded :: "program_map \<Rightarrow> bytes \<times> nat option \<times> bool \<times> nat \<Rightarrow> parse_event" where
  "forwarded pm entry =
     (case entry of (packet, offset, pusi, p) \<Rightarrow>
        Pes \<lparr> payloadUnitStartIndicator = pusi, pid = p, streamType = pes_streamType pm p,
              fdata = subarray_from packet offset \<rparr>)"

section \<open>ElementaryStream\<close>

text \<open>The constants of stream-event-types, the \<^verbatim>\<open>type\<close> of an event.\<close>

datatype stream_event_type = VIDEO | AUDIO | TIMED_METADATA | SUBTITLES | METADATA_EVENT

text \<open>
  A PES accumulator \<^verbatim>\<open>{ data: [], size: 0 }\<close>: the fragments buffered and the count
  of their bytes.
\<close>

record pes_stream =
  sdata :: "pes_fragment list"
  ssize :: nat

definition defaultStream :: pes_stream where
  "defaultStream = \<lparr> sdata = [], ssize = 0 \<rparr>"

text \<open>
  The event \<^verbatim>\<open>flushStream\<close> builds and \<^verbatim>\<open>parsePes\<close> fills in; a field
  \<^verbatim>\<open>parsePes\<close> did not set is \<open>None\<close>.
\<close>

record pes_event =
  etype :: stream_event_type
  trackId :: nat
  edata :: bytes
  packetLength :: "nat option"
  dataAlignmentIndicator :: "bool option"
  pts :: "int option"
  dts :: "int option"

text \<open>
  The 33-bit timestamp of five bytes, as \<^verbatim>\<open>parsePes\<close> computes it: the 31 most
  significant bits with 32-bit operators (the result read as a signed 32-bit integer),
  then times 4 and plus the two least significant bits as numbers.
\<close>

definition timestamp31 :: "byte option \<Rightarrow> byte option \<Rightarrow> byte option \<Rightarrow> byte option \<Rightarrow> byte option \<Rightarrow> 32 word" where
  "timestamp31 b0 b1 b2 b3 b4 =
     push_bit 27 (int32 b0 AND 0x0E) OR
     push_bit 20 (int32 b1 AND 0xFF) OR
     push_bit 12 (int32 b2 AND 0xFE) OR
     push_bit 5 (int32 b3 AND 0xFF) OR
     drop_bit 3 (int32 b4 AND 0xFE)"

definition timestamp33 :: "byte option \<Rightarrow> byte option \<Rightarrow> byte option \<Rightarrow> byte option \<Rightarrow> byte option \<Rightarrow> int" where
  "timestamp33 b0 b1 b2 b3 b4 =
     sint (timestamp31 b0 b1 b2 b3 b4) * 4 + uint (drop_bit 1 (int32 b4 AND 0x06))"

text \<open>\<^verbatim>\<open>payload[0] << 16 | payload[1] << 8 | payload[2]\<close>.\<close>

definition startPrefix :: "bytes \<Rightarrow> 32 word" where
  "startPrefix payload =
     push_bit 16 (int32 (byteAt payload 0)) OR push_bit 8 (int32 (byteAt payload 1)) OR
     int32 (byteAt payload 2)"

text \<open>
  The timestamp as the specification writes it, on unbounded integers:
  \<^verbatim>\<open>(p[9] & 0x0E) << 29 | p[10] << 22 | (p[11] & 0xFE) << 14 | p[12] << 7 | (p[13] & 0xFE) >> 1\<close>.
  \<open>byteVal\<close> is the value of an array read, 0 for a read past the end (as the
  bitwise operators of the source take it).
\<close>

definition byteVal :: "byte option \<Rightarrow> int" where
  "byteVal b = (case b of None \<Rightarrow> 0 | Some x \<Rightarrow> uint x)"

definition spec_timestamp :: "int \<Rightarrow> int \<Rightarrow> int \<Rightarrow> int \<Rightarrow> int \<Rightarrow> int" where
  "spec_timestamp p0 p1 p2 p3 p4 =
     push_bit 29 (p0 AND 0x0E) OR push_bit 22 p1 OR push_bit 14 (p2 AND 0xFE) OR
     push_bit 7 p3 OR drop_bit 1 (p4 AND 0xFE)"

definition spec_timestamp_at :: "bytes \<Rightarrow> nat \<Rightarrow> int" where
  "spec_timestamp_at p i =
     spec_timestamp (byteVal (byteAt p i)) (byteVal (byteAt p (i + 1)))
       (byteVal (byteAt p (i + 2))) (byteVal (byteAt p (i + 3))) (byteVal (byteAt p (i + 4)))"

definition parsePes :: "bytes \<Rightarrow> pes_event \<Rightarrow> pes_event" where
  "parsePes payload pes =
     (let pes0 = pes\<lparr> edata := [] \<rparr>
      in if startPrefix payload \<noteq> 1 then pes0
         else
           (let pes1 = pes0\<lparr>
                  packetLength := Some (6 + unat (push_bit 8 (int32 (byteAt payload 4)) OR
                                                  int32 (byteAt payload 5))),
                  dataAlignmentIndicator := Some (int32 (byteAt payload 6) AND 0x04 \<noteq> 0) \<rparr>;
                ptsDtsFlags = int32 (byteAt payload 7);
                pes2 =
                  (if ptsDtsFlags AND 0xC0 \<noteq> 0 then
                     (let t = timestamp33 (byteAt payload 9) (byteAt payload 10)
                                (byteAt payload 11) (byteAt payload 12) (byteAt payload 13)
                      in pes1\<lparr> pts := Some t,
                               dts := (if ptsDtsFlags AND 0x40 \<noteq> 0
                                       then Some (timestamp33 (byteAt payload 14)
                                                    (byteAt payload 15) (byteAt payload 16)
                                                    (byteAt payload 17) (byteAt payload 18))
                                       else Some t) \<rparr>)
                   else pes1)
            in pes2\<lparr> edata := subarray_from payload
                                  (case byteAt payload 8 of
                                     None \<Rightarrow> None
                                   | Some l \<Rightarrow> Some (9 + unat l)) \<rparr>))"

text \<open>
  The reassembly loop of \<^verbatim>\<open>flushStream\<close>: \<^verbatim>\<open>packetData = Buffer.alloc(stream.size)\<close>
  and each fragment is copied behind the one before. \<^verbatim>\<open>set\<close> throws a
  \<^verbatim>\<open>RangeError\<close> when a fragment does not fit.
\<close>

fun reassemble :: "bytes \<Rightarrow> nat \<Rightarrow> pes_fragment list \<Rightarrow> js_error + bytes" where
  "reassemble packetData offset [] = Inr packetData"
| "reassemble packetData offset (fragment # rest) =
     (if offset + length (fdata fragment) \<le> length packetData
      then reassemble (take offset packetData @ fdata fragment @
                       drop (offset + length (fdata fragment)) packetData)
                      (offset + length (fdata fragment)) rest
      else Inl RangeError)"

text \<open>The event object before \<^verbatim>\<open>parsePes\<close>: \<^verbatim>\<open>{ type, trackId }\<close>.\<close>

definition new_event :: "stream_event_type \<Rightarrow> nat \<Rightarrow> pes_event" where
  "new_event type track =
     \<lparr> etype = type, trackId = track, edata = [], packetLength = None,
       dataAlignmentIndicator = None, pts = None, dts = None \<rparr>"

text \<open>
  \<^verbatim>\<open>flushStream(stream, type, forceFlush)\<close>: the exception thrown, or the events
  triggered and the accumulator afterwards.
\<close>

definition flushStream :: "pes_stream \<Rightarrow> stream_event_type \<Rightarrow> bool \<Rightarrow>
    js_error + (pes_event list \<times> pes_stream)" where
  "flushStream stream type forceFlush =
     (if sdata stream = [] \<or> ssize stream < 9 then Inr ([], stream)
      else
        (case reassemble (replicate (ssize stream) 0) 0 (sdata stream) of
           Inl e \<Rightarrow> Inl e
         | Inr packetData \<Rightarrow>
             (let event = parsePes packetData (new_event type (pid (hd (sdata stream))));
                  packetFlushable =
                    (type = VIDEO \<or>
                     (case packetLength event of
                        None \<Rightarrow> False
                      | Some l \<Rightarrow> l \<le> ssize stream));
                  stream' = (if forceFlush \<or> packetFlushable
                             then stream\<lparr> sdata := [], ssize := 0 \<rparr> else stream)
              in Inr (if packetFlushable then [event] else [], stream'))))"

text \<open>
  The state of the stream object. \<^verbatim>\<open>audio\<close> and \<^verbatim>\<open>subtitles\<close> are objects keyed
  by PID, listed in ascending order of the PID by \<^verbatim>\<open>Object.values\<close>.
\<close>

record elementary_stream =
  video :: pes_stream
  audio :: "(nat \<times> pes_stream) list"
  subtitles :: "(nat \<times> pes_stream) list"
  timedMetadata :: pes_stream
  es_programMapTable :: "program_map option"

definition elementary_stream_init :: elementary_stream where
  "elementary_stream_init =
     \<lparr> video = defaultStream, audio = [], subtitles = [], timedMetadata = defaultStream,
       es_programMapTable = None \<rparr>"

text \<open>The tracks of the \<^verbatim>\<open>metadata\<close> event built from a PMT.\<close>

record track_info =
  ti_type :: string
  ti_pid :: nat
  ti_codec :: "string option"
  ti_languages :: "language list"
  ti_code :: "string option"

datatype elementary_event =
    PesData pes_event
  | Metadata "track_info list"
  | ElementaryDone

definition metadata_tracks :: "program_map \<Rightarrow> track_info list" where
  "metadata_tracks pm =
     (case pm_video pm of
        None \<Rightarrow> []
      | Some v \<Rightarrow> [\<lparr> ti_type = ''video'', ti_pid = v, ti_codec = Some ''avc'',
                      ti_languages = [], ti_code = None \<rparr>]) @
     map (\<lambda>(p, langs). \<lparr> ti_type = ''audio'', ti_pid = p, ti_codec = Some ''adts'',
                          ti_languages = langs, ti_code = None \<rparr>) (pm_audio pm) @
     map (\<lambda>(p, d). \<lparr> ti_type = pd_type d, ti_pid = p, ti_codec = None,
                      ti_languages = [], ti_code = Some (pd_language d) \<rparr>) (pm_privateData pm)"

text \<open>The accumulator a PES fragment goes to, and its event type.\<close>

datatype accumulator = VideoAcc | AudioAcc nat | TimedMetadataAcc

definition select_stream :: "pes_fragment \<Rightarrow> (accumulator \<times> stream_event_type) option" where
  "select_stream d =
     (if streamType d = Some VIDEO_H264 then Some (VideoAcc, VIDEO)
      else if streamType d = Some AUDIO_ADTS then Some (AudioAcc (pid d), AUDIO)
      else if streamType d = Some METADATA then Some (TimedMetadataAcc, TIMED_METADATA)
      else None)"

definition get_stream :: "elementary_stream \<Rightarrow> accumulator \<Rightarrow> pes_stream" where
  "get_stream st a =
     (case a of
        VideoAcc \<Rightarrow> video st
      | AudioAcc p \<Rightarrow> (case map_of (audio st) p of None \<Rightarrow> defaultStream | Some s \<Rightarrow> s)
      | TimedMetadataAcc \<Rightarrow> timedMetadata st)"

definition put_stream :: "elementary_stream \<Rightarrow> accumulator \<Rightarrow> pes_stream \<Rightarrow> elementary_stream" where
  "put_stream st a s =
     (case a of
        VideoAcc \<Rightarrow> st\<lparr> video := s \<rparr>
      | AudioAcc p \<Rightarrow> st\<lparr> audio := obj_set (audio st) p s \<rparr>
      | TimedMetadataAcc \<Rightarrow> st\<lparr> timedMetadata := s \<rparr>)"

text \<open>\<^verbatim>\<open>push(data)\<close> of the ElementaryStream.\<close>

definition elementary_push :: "elementary_stream \<Rightarrow> parse_event \<Rightarrow>
    js_error + (elementary_event list \<times> elementary_stream)" where
  "elementary_push st d =
     (case d of
        Pat _ _ _ _ _ \<Rightarrow> Inr ([], st)
      | Pes frag \<Rightarrow>
          (case select_stream frag of
             None \<Rightarrow> Inr ([], st)
           | Some (a, streamEventType) \<Rightarrow>
               (case (if payloadUnitStartIndicator frag
                      then flushStream (get_stream st a) streamEventType True
                      else Inr ([], get_stream st a)) of
                  Inl e \<Rightarrow> Inl e
                | Inr (evs, s) \<Rightarrow>
                    Inr (map PesData evs,
                         put_stream st a
                           (s\<lparr> sdata := sdata s @ [frag],
                               ssize := ssize s + length (fdata frag) \<rparr>))))
      | Pmt _ _ table \<Rightarrow>
          (case table of
             None \<Rightarrow> Inl TypeError
           | Some pm \<Rightarrow>
               Inr ([Metadata (metadata_tracks pm)], st\<lparr> es_programMapTable := Some pm \<rparr>)))"

text \<open>
  \<^verbatim>\<open>flushStreams_\<close>: the accumulators are flushed one after the other, without
  \<^verbatim>\<open>forceFlush\<close>.
\<close>

fun flushAll :: "stream_event_type \<Rightarrow> (nat \<times> pes_stream) list \<Rightarrow>
    js_error + (pes_event list \<times> (nat \<times> pes_stream) list)" where
  "flushAll type [] = Inr ([], [])"
| "flushAll type ((p, s) # rest) =
     (case flushStream s type False of
        Inl e \<Rightarrow> Inl e
      | Inr (evs, s') \<Rightarrow>
          (case flushAll type rest of
             Inl e \<Rightarrow> Inl e
           | Inr (evs', rest') \<Rightarrow> Inr (evs @ evs', (p, s') # rest')))"

definition flushStreams :: "elementary_stream \<Rightarrow>
    js_error + (elementary_event list \<times> elementary_stream)" where
  "flushStreams st =
     (case flushStream (video st) VIDEO False of
        Inl e \<Rightarrow> Inl e
      | Inr (ev, v) \<Rightarrow>
     (case flushAll AUDIO (audio st) of
        Inl e \<Rightarrow> Inl e
      | Inr (ea, a) \<Rightarrow>
     (case flushAll SUBTITLES (subtitles st) of
        Inl e \<Rightarrow> Inl e
      | Inr (es, su) \<Rightarrow>
     (case flushStream (timedMetadata st) TIMED_METADATA False of
        Inl e \<Rightarrow> Inl e
      | Inr (et, t) \<Rightarrow>
          Inr (map PesData (ev @ ea @ es @ et),
               st\<lparr> video := v, audio := a, subtitles := su, timedMetadata := t \<rparr>)))))"

text \<open>\<^verbatim>\<open>flush()\<close> of the ElementaryStream triggers \<^verbatim>\<open>done\<close> and nothing else.\<close>

definition elementary_flush :: "elementary_stream \<Rightarrow> elementary_event list \<times> elementary_stream" where
  "elementary_flush st = ([ElementaryDone], st)"

text \<open>The accumulator holds as many bytes as its \<^verbatim>\<open>size\<close> says.\<close>

definition stream_ok :: "pes_stream \<Rightarrow> bool" where
  "stream_ok s \<longleftrightarrow> ssize s = length (concat (map fdata (sdata s)))"

text \<open>
  The invariant of the stream object: every accumulator holds as many bytes as its
  \<^verbatim>\<open>size\<close> says, the audio accumulators are listed in ascending order of their
  PID, and the accumulator of a PID holds fragments of that PID only.
\<close>

definition es_ok :: "elementary_stream \<Rightarrow> bool" where
  "es_ok st \<longleftrightarrow>
     stream_ok (video st) \<and> stream_ok (timedMetadata st) \<and>
     list_all (\<lambda>(p, s). stream_ok s \<and> list_all (\<lambda>f. pid f = p) (sdata s)) (audio st) \<and>
     sorted_wrt (<) (map fst (audio st)) \<and>
     list_all (\<lambda>(p, s). stream_ok s) (subtitles st)"

text \<open>The place of an event type in the order of \<^verbatim>\<open>flushStreams_\<close>.\<close>

definition type_rank :: "stream_event_type \<Rightarrow> nat" where
  "type_rank t =
     (case t of VIDEO \<Rightarrow> 0 | AUDIO \<Rightarrow> 1 | SUBTITLES \<Rightarrow> 2 | TIMED_METADATA \<Rightarrow> 3
      | METADATA_EVENT \<Rightarrow> 4)"

text \<open>
  What a flush without \<^verbatim>\<open>forceFlush\<close> does with one accumulator, written without the
  copy loop. The accumulator holds a complete unit when it holds a fragment and at least
  9 bytes and, unless it is the video accumulator, the \<^verbatim>\<open>packetLength\<close> of its PES
  header is not above the count of bytes buffered. A complete unit gives one event:
  the PES parsed from the concatenation of the fragments, with the PID of the first
  fragment as \<^verbatim>\<open>trackId\<close>; its accumulator is emptied. Any other accumulator gives
  no event and stays as it is.
\<close>

definition pes_of :: "stream_event_type \<Rightarrow> pes_stream \<Rightarrow> pes_event" where
  "pes_of type s =
     parsePes (concat (map fdata (sdata s))) (new_event type (pid (hd (sdata s))))"

definition complete_unit :: "stream_event_type \<Rightarrow> pes_stream \<Rightarrow> bool" where
  "complete_unit type s \<longleftrightarrow>
     sdata s \<noteq> [] \<and> 9 \<le> ssize s \<and>
     (type = VIDEO \<or>
      (case packetLength (pes_of type s) of None \<Rightarrow> False | Some l \<Rightarrow> l \<le> ssize s))"

definition pending_events :: "stream_event_type \<Rightarrow> pes_stream \<Rightarrow> pes_event list" where
  "pending_events type s = (if complete_unit type s then [pes_of type s] else [])"

definition after_flush :: "stream_event_type \<Rightarrow> pes_stream \<Rightarrow> pes_stream" where
  "after_flush type s =
     (if complete_unit type s then s\<lparr> sdata := [], ssize := 0 \<rparr> else s)"

text \<open>A run of pushes, up to the first one that throws.\<close>

fun elementary_pushes :: "elementary_stream \<Rightarrow> parse_event list \<Rightarrow>
    js_error + (elementary_event list \<times> elementary_stream)" where
  "elementary_pushes st [] = Inr ([], st)"
| "elementary_pushes st (d # ds) =
     (case elementary_push st d of
        Inl e \<Rightarrow> Inl e
      | Inr (evs, st1) \<Rightarrow>
          (case elementary_pushes st1 ds of
             Inl e \<Rightarrow> Inl e
           | Inr (evs2, st2) \<Rightarrow> Inr (evs @ evs2, st2)))"

text \<open>
  A stream object in which four accumulators hold a complete PES each: video on PID
  256, audio on the PIDs 257 and 258, timed metadata on PID 259. \<open>example_pes\<close> is a
  fragment that starts a unit and holds a whole PES of 11 bytes: start code, stream id,
  \<^verbatim>\<open>PES_packet_length\<close> 5, no timestamps, no further header bytes, the payload
  \<^verbatim>\<open>AA BB\<close>.
\<close>

definition example_pes :: "nat \<Rightarrow> nat \<Rightarrow> pes_fragment" where
  "example_pes p type =
     \<lparr> payloadUnitStartIndicator = True, pid = p, streamType = Some type,
       fdata = [0, 0, 1, 0xE0, 0, 5, 0x80, 0, 0, 0xAA, 0xBB] \<rparr>"

definition example_es :: elementary_stream where
  "example_es =
     \<lparr> video = \<lparr> sdata = [example_pes 256 VIDEO_H264], ssize = 11 \<rparr>,
       audio = [(257, \<lparr> sdata = [example_pes 257 AUDIO_ADTS], ssize = 11 \<rparr>),
                (258, \<lparr> sdata = [example_pes 258 AUDIO_ADTS], ssize = 11 \<rparr>)],
       subtitles = [],
       timedMetadata = \<lparr> sdata = [example_pes 259 METADATA], ssize = 11 \<rparr>,
       es_programMapTable = None \<rparr>"

definition example_payload :: "stream_event_type \<Rightarrow> nat \<Rightarrow> pes_event" where
  "example_payload type p =
     \<lparr> etype = type, trackId = p, edata = [0xAA, 0xBB], packetLength = Some 11,
       dataAlignmentIndicator = Some False, pts = None, dts = None \<rparr>"

section \<open>CoalesceStream\<close>

text \<open>
  A track object as the coalescer reads it: \<^verbatim>\<open>type\<close>, \<^verbatim>\<open>pid\<close> and
  \<^verbatim>\<open>timelineStartInfo.pts\<close> (\<open>None\<close> when undefined).
\<close>

record co_track =
  tr_type :: string
  tr_pid :: nat
  tr_timelineStartPts :: "int option"

record caption =
  cap_startPts :: int
  cap_endPts :: int
  cap_text :: string

record id3 =
  id3_pts :: int
  id3_frames :: "bytes list"

text \<open>What \<^verbatim>\<open>push(output)\<close> receives: a caption, an ID3 tag, or \<^verbatim>\<open>{track, boxes}\<close>.\<close>

datatype co_output = CaptionOut caption | Id3Out id3 | TrackOut co_track bytes

datatype flush_source = VideoSegmentStream | AudioSegmentStream | OtherSource

text \<open>
  The functions of other modules the coalescer calls, taken as parameters:
  \<^verbatim>\<open>mp4.initSegment(tracks)\<close> of the box writer, the codecs of the tracks that
  \<^verbatim>\<open>probe.tracks\<close> finds in an init segment, and \<^verbatim>\<open>clock.metadataTsToSeconds\<close>.
\<close>

record 't co_externals =
  initSegment :: "co_track list \<Rightarrow> bytes"
  trackCodecs :: "bytes \<Rightarrow> string list"
  metadataTsToSeconds :: "int \<Rightarrow> int option \<Rightarrow> bool \<Rightarrow> 't"

record segment =
  seg_initSegment :: bytes
  seg_data :: bytes
  seg_type :: string
  seg_codec :: string
  seg_pid :: "nat option"

datatype 't co_event =
    Data segment
  | CaptionEvent caption 't 't
  | Id3Frame id3 't
  | Done

text \<open>
  The state of the stream object. \<^verbatim>\<open>trackIds\<close> is the \<^verbatim>\<open>Set\<close> of the strings
  \<^verbatim>\<open>type-pid\<close>, here the set of the pairs; \<^verbatim>\<open>bufferedTrackIds\<close> is the
  \<^verbatim>\<open>Set\<close> of the PIDs buffered; the \<^verbatim>\<open>size\<close> of a set is its \<open>card\<close>;
  \<^verbatim>\<open>audioTracksByPid\<close> is an object keyed by PID.
\<close>

record coalesce_stream =
  remuxTracks :: bool
  keepOriginalTimestamps :: bool
  trackIds :: "(string \<times> nat) set"
  videoTrack :: "co_track option"
  audioTracksByPid :: "(nat \<times> co_track) list"
  pendingCaptions :: "caption list"
  pendingMetadata :: "id3 list"
  emittedTracks :: nat
  trackData :: "(co_track \<times> bytes) list"
  bufferedTrackIds :: "nat set"
  currentAudioPid :: "nat option"

definition coalesce_init :: "bool \<Rightarrow> bool \<Rightarrow> coalesce_stream" where
  "coalesce_init remux keep =
     \<lparr> remuxTracks = remux, keepOriginalTimestamps = keep, trackIds = {}, videoTrack = None,
       audioTracksByPid = [], pendingCaptions = [], pendingMetadata = [], emittedTracks = 0,
       trackData = [], bufferedTrackIds = {}, currentAudioPid = None \<rparr>"

text \<open>
  \<^verbatim>\<open>addTrack(type, pid)\<close>. In \<^verbatim>\<open>this.currentAudioPid ? Math.min(...) : pid\<close> a
  current PID of 0 counts as unset.
\<close>

definition addTrack :: "coalesce_stream \<Rightarrow> string \<Rightarrow> nat \<Rightarrow> coalesce_stream" where
  "addTrack st type p =
     (let st1 = st\<lparr> trackIds := insert (type, p) (trackIds st) \<rparr>
      in if type = ''audio''
         then st1\<lparr> currentAudioPid :=
                     (case currentAudioPid st1 of
                        None \<Rightarrow> Some p
                      | Some c \<Rightarrow> if c \<noteq> 0 then Some (min c p) else Some p) \<rparr>
         else st1)"

text \<open>
  \<^verbatim>\<open>push(output)\<close>. The two early returns test \<^verbatim>\<open>output.text\<close> and
  \<^verbatim>\<open>output.frames\<close> for truthiness. The \<^verbatim>\<open>frames\<close> of an ID3 tag are an array,
  which is truthy also when empty. A caption whose text is the empty string passes both
  tests and reaches the part of \<^verbatim>\<open>push\<close> for \<^verbatim>\<open>{track, boxes}\<close>, where
  \<^verbatim>\<open>track\<close> is undefined and \<^verbatim>\<open>track.pid\<close> throws a \<^verbatim>\<open>TypeError\<close>.
  \<open>buffer_track\<close> is that part of \<^verbatim>\<open>push\<close>, behind the early returns.
\<close>

definition buffer_track :: "coalesce_stream \<Rightarrow> co_track \<Rightarrow> bytes \<Rightarrow> coalesce_stream" where
  "buffer_track st track boxes =
     (let st1 = st\<lparr> trackData := trackData st @ [(track, boxes)],
                     bufferedTrackIds := insert (tr_pid track) (bufferedTrackIds st) \<rparr>;
          st2 = (if tr_type track = ''video''
                 then st1\<lparr> videoTrack := Some track \<rparr> else st1)
      in if tr_type track = ''audio''
         then st2\<lparr> audioTracksByPid :=
                     obj_set (audioTracksByPid st2) (tr_pid track) track \<rparr>
         else st2)"

definition coalesce_push :: "coalesce_stream \<Rightarrow> co_output \<Rightarrow> js_error + coalesce_stream" where
  "coalesce_push st output =
     (case output of
        CaptionOut c \<Rightarrow>
          (if cap_text c \<noteq> [] then Inr (st\<lparr> pendingCaptions := pendingCaptions st @ [c] \<rparr>)
           else Inl TypeError)
      | Id3Out m \<Rightarrow> Inr (st\<lparr> pendingMetadata := pendingMetadata st @ [m] \<rparr>)
      | TrackOut track boxes \<Rightarrow> Inr (buffer_track st track boxes))"

text \<open>
  \<^verbatim>\<open>groupSendTracks\<close>: the tracks of the init segment (the selected audio track, then
  the video track), the entries of \<^verbatim>\<open>trackData\<close> that are kept, and the event.
\<close>

definition selected_audio :: "coalesce_stream \<Rightarrow> co_track option" where
  "selected_audio st =
     (case currentAudioPid st of
        None \<Rightarrow> None
      | Some p \<Rightarrow> map_of (audioTracksByPid st) p)"

definition init_tracks :: "coalesce_stream \<Rightarrow> co_track list" where
  "init_tracks st =
     (case selected_audio st of None \<Rightarrow> [] | Some a \<Rightarrow> [a]) @
     (case videoTrack st of None \<Rightarrow> [] | Some v \<Rightarrow> [v])"

definition keeps :: "coalesce_stream \<Rightarrow> co_track \<times> bytes \<Rightarrow> bool" where
  "keeps st entry \<longleftrightarrow>
     tr_type (fst entry) = ''video'' \<or>
     (tr_type (fst entry) = ''audio'' \<and> Some (tr_pid (fst entry)) = currentAudioPid st)"

definition join_codecs :: "string list \<Rightarrow> string" where
  "join_codecs cs = foldl (\<lambda>cc c. if cc \<noteq> [] then cc @ '','' @ c else c) [] cs"

definition groupSendTracks :: "'t co_externals \<Rightarrow> coalesce_stream \<Rightarrow>
    js_error + (segment \<times> coalesce_stream)" where
  "groupSendTracks ext st =
     (if init_tracks st = [] then Inl Error
      else
        (let tracksDataToKeep = filter (keeps st) (trackData st);
             n = sum_list (map (\<lambda>entry. length (snd entry)) tracksDataToKeep)
         in if n = 0 then Inl Error
            else
              (let ini = initSegment ext (init_tracks st)
               in Inr (\<lparr> seg_initSegment = ini,
                         seg_data = concat (map snd tracksDataToKeep),
                         seg_type = (if videoTrack st \<noteq> None then ''video'' else ''audio''),
                         seg_codec = join_codecs (trackCodecs ext ini),
                         seg_pid = currentAudioPid st \<rparr>,
                       st\<lparr> emittedTracks := card (trackIds st) \<rparr>))))"

text \<open>The end of \<^verbatim>\<open>flush\<close>: \<^verbatim>\<open>done\<close> once all tracks have been emitted.\<close>

definition emit_done :: "coalesce_stream \<Rightarrow> 't co_event list \<times> coalesce_stream" where
  "emit_done st =
     (if emittedTracks st \<ge> card (trackIds st)
      then ([Done], st\<lparr> emittedTracks := 0 \<rparr>) else ([], st))"

definition coalesce_flush :: "'t co_externals \<Rightarrow> coalesce_stream \<Rightarrow> flush_source \<Rightarrow>
    js_error + ('t co_event list \<times> coalesce_stream)" where
  "coalesce_flush ext st flushSource =
     (if card (bufferedTrackIds st) < card (trackIds st) \<and>
         (flushSource \<noteq> VideoSegmentStream \<and> flushSource \<noteq> AudioSegmentStream) then
        Inr ([], st)
      else if card (bufferedTrackIds st) < card (trackIds st) \<and> remuxTracks st then
        Inr ([], st)
      else if card (bufferedTrackIds st) < card (trackIds st) \<and> trackData st = [] then
        (let st1 = st\<lparr> emittedTracks := emittedTracks st + 1 \<rparr>
         in Inr (emit_done st1))
      else
        (let audioTracks = map snd (audioTracksByPid st);
             timelineStartPts =
               (case videoTrack st of
                  Some v \<Rightarrow> tr_timelineStartPts v
                | None \<Rightarrow> (case audioTracks of
                             a # _ \<Rightarrow> tr_timelineStartPts a
                           | [] \<Rightarrow> Some 0))
         in if trackData st \<noteq> [] then
              (case groupSendTracks ext st of
                 Inl e \<Rightarrow> Inl e
               | Inr (seg, st1) \<Rightarrow>
                   (let st2 = st1\<lparr> trackData := [], bufferedTrackIds := {}, videoTrack := None,
                                   audioTracksByPid := [], pendingCaptions := [],
                                   pendingMetadata := [] \<rparr>;
                        caps = map (\<lambda>c. CaptionEvent c
                                     (metadataTsToSeconds ext (cap_startPts c) timelineStartPts
                                        (keepOriginalTimestamps st))
                                     (metadataTsToSeconds ext (cap_endPts c) timelineStartPts
                                        (keepOriginalTimestamps st)))
                                 (pendingCaptions st);
                        tags = map (\<lambda>m. Id3Frame m
                                     (metadataTsToSeconds ext (id3_pts m) timelineStartPts
                                        (keepOriginalTimestamps st)))
                                 (pendingMetadata st)
                    in case emit_done st2 of
                         (d, st3) \<Rightarrow> Inr (Data seg # caps @ tags @ d, st3)))
            else Inr (emit_done st)))"

text \<open>Whether an event is a \<^verbatim>\<open>data\<close> event.\<close>

fun is_data :: "'t co_event \<Rightarrow> bool" where
  "is_data (Data _) = True"
| "is_data _ = False"

text \<open>
  A run of the coalescer used below: video on PID 256 and audio on PID 257 are
  registered, remux is on; the audio segmenter delivers its boxes first, then the video
  segmenter.
\<close>

definition example_audio :: co_track where
  "example_audio = \<lparr> tr_type = ''audio'', tr_pid = 257, tr_timelineStartPts = Some 0 \<rparr>"

definition example_video :: co_track where
  "example_video = \<lparr> tr_type = ''video'', tr_pid = 256, tr_timelineStartPts = Some 0 \<rparr>"

definition example_externals :: "int co_externals" where
  "example_externals =
     \<lparr> initSegment = (\<lambda>tracks. map (\<lambda>t. of_nat (tr_pid t)) tracks),
       trackCodecs = (\<lambda>ini. []),
       metadataTsToSeconds = (\<lambda>p start keep. p) \<rparr>"

definition example_registered :: coalesce_stream where
  "example_registered = addTrack (addTrack (coalesce_init True False) ''video'' 256) ''audio'' 257"

definition example_audio_only :: coalesce_stream where
  "example_audio_only = buffer_track example_registered example_audio [1, 2]"

definition example_both :: coalesce_stream where
  "example_both = buffer_track example_audio_only example_video [3, 4]"

section \<open>VideoSegmentStream\<close>

text \<open>
  A NAL unit as the H.264 parser emits it. The \<^verbatim>\<open>nalUnitType\<close> strings the segmenter
  tells apart are the four named here; every other type is \<open>other_nal_unit_type\<close>.
  The \<^verbatim>\<open>config\<close> of a sequence parameter set, which \<^verbatim>\<open>push\<close> copies to the
  track's video properties and the segmenter never reads, is left out.
\<close>

datatype nal_type =
    access_unit_delimiter_rbsp
  | slice_layer_without_partitioning_rbsp_idr
  | seq_parameter_set_rbsp
  | pic_parameter_set_rbsp
  | other_nal_unit_type

record nal =
  nalUnitType :: nal_type
  nal_data :: bytes
  nal_dts :: int
  nal_pts :: int

text \<open>
  Frames and GOPs are arrays that carry aggregates as properties: a frame is its NAL
  units with \<^verbatim>\<open>keyFrame\<close>, \<^verbatim>\<open>pts\<close>, \<^verbatim>\<open>dts\<close>, \<^verbatim>\<open>duration\<close> and
  \<^verbatim>\<open>byteLength\<close>; a GOP is its frames with \<^verbatim>\<open>pts\<close>, \<^verbatim>\<open>dts\<close>, \<^verbatim>\<open>duration\<close>,
  \<^verbatim>\<open>byteLength\<close> and \<^verbatim>\<open>nalCount\<close>; the list of GOPs has the same aggregates.
\<close>

record frame =
  f_nals :: "nal list"
  keyFrame :: bool
  f_pts :: int
  f_dts :: int
  f_duration :: int
  f_byteLength :: int

record gop =
  g_frames :: "frame list"
  g_pts :: int
  g_dts :: int
  g_duration :: int
  g_byteLength :: int
  g_nalCount :: int

record gops =
  gs_items :: "gop list"
  gs_pts :: int
  gs_dts :: int
  gs_duration :: int
  gs_byteLength :: int
  gs_nalCount :: int

subsection \<open>frame-utils\<close>

text \<open>
  Modelled from the spec: \<^verbatim>\<open>frame-utils\<close> (\<^verbatim>\<open>groupNalsIntoFrames\<close>,
  \<^verbatim>\<open>groupFramesIntoGops\<close>, \<^verbatim>\<open>extendFirstKeyFrame\<close>) is not among the source files.
  The specification: a frame is the ordered sequence of the NAL units of one access
  unit, bounded by access-unit delimiters, and is a keyframe iff it contains an IDR
  slice; a GOP is an ordered sequence of frames that a keyframe starts (the frames in
  front of the first keyframe form a first GOP of their own, the one step 4 of the flush
  algorithm repairs); each frame and GOP carries its aggregates. The specification does
  not say how the aggregates are computed: here a frame has the timestamps of its first
  NAL unit and lasts until the next frame's decoding time (the last frame as long as the
  one before it), a GOP has the timestamps of its first frame, and byte lengths, NAL
  counts and GOP durations are sums. No theorem below depends on these values.
\<close>

fun startGroups :: "('a \<Rightarrow> bool) \<Rightarrow> 'a list \<Rightarrow> 'a list list" where
  "startGroups starts [] = []"
| "startGroups starts (x # xs) =
     (case startGroups starts xs of
        [] \<Rightarrow> [[x]]
      | g # gs \<Rightarrow>
          (case g of
             [] \<Rightarrow> [x] # gs
           | y # _ \<Rightarrow> if starts y then [x] # g # gs else (x # g) # gs))"

definition is_idr :: "nal \<Rightarrow> bool" where
  "is_idr n \<longleftrightarrow> nalUnitType n = slice_layer_without_partitioning_rbsp_idr"

definition is_aud :: "nal \<Rightarrow> bool" where
  "is_aud n \<longleftrightarrow> nalUnitType n = access_unit_delimiter_rbsp"

text \<open>The NAL units of each access unit: a delimiter starts a new one.\<close>

definition nalGroups :: "nal list \<Rightarrow> nal list list" where
  "nalGroups ns = startGroups is_aud ns"

definition mkFrame :: "nal list \<Rightarrow> int \<Rightarrow> frame" where
  "mkFrame ns duration =
     \<lparr> f_nals = ns, keyFrame = list_ex is_idr ns,
       f_pts = (case ns of [] \<Rightarrow> 0 | n # _ \<Rightarrow> nal_pts n),
       f_dts = (case ns of [] \<Rightarrow> 0 | n # _ \<Rightarrow> nal_dts n),
       f_duration = duration,
       f_byteLength = sum_list (map (\<lambda>n. int (length (nal_data n))) ns) \<rparr>"

fun framesOf :: "int \<Rightarrow> nal list list \<Rightarrow> frame list" where
  "framesOf previous [] = []"
| "framesOf previous [g] = [mkFrame g previous]"
| "framesOf previous (g # h # gs) =
     (let d = (case h of [] \<Rightarrow> 0 | n # _ \<Rightarrow> nal_dts n) -
              (case g of [] \<Rightarrow> 0 | n # _ \<Rightarrow> nal_dts n)
      in mkFrame g d # framesOf d (h # gs))"

definition groupNalsIntoFrames :: "nal list \<Rightarrow> frame list" where
  "groupNalsIntoFrames nalUnits = framesOf 0 (nalGroups nalUnits)"

text \<open>The frames of each GOP: a keyframe starts a new one.\<close>

definition frameGroups :: "frame list \<Rightarrow> frame list list" where
  "frameGroups fs = startGroups keyFrame fs"

definition mkGop :: "frame list \<Rightarrow> gop" where
  "mkGop fs =
     \<lparr> g_frames = fs,
       g_pts = (case fs of [] \<Rightarrow> 0 | f # _ \<Rightarrow> f_pts f),
       g_dts = (case fs of [] \<Rightarrow> 0 | f # _ \<Rightarrow> f_dts f),
       g_duration = sum_list (map f_duration fs),
       g_byteLength = sum_list (map f_byteLength fs),
       g_nalCount = sum_list (map (\<lambda>f. int (length (f_nals f))) fs) \<rparr>"

definition mkGops :: "gop list \<Rightarrow> gops" where
  "mkGops gs =
     \<lparr> gs_items = gs,
       gs_pts = (case gs of [] \<Rightarrow> 0 | g # _ \<Rightarrow> g_pts g),
       gs_dts = (case gs of [] \<Rightarrow> 0 | g # _ \<Rightarrow> g_dts g),
       gs_duration = sum_list (map g_duration gs),
       gs_byteLength = sum_list (map g_byteLength gs),
       gs_nalCount = sum_list (map g_nalCount gs) \<rparr>"

definition groupFramesIntoGops :: "frame list \<Rightarrow> gops" where
  "groupFramesIntoGops frames = mkGops (map mkGop (frameGroups frames))"

text \<open>
  Keyframe pulling, from the specification: the frames in front of the first keyframe
  (the first GOP, where a keyframe does not start it) are discarded and the first frame
  of the next GOP, a keyframe, takes over their start and is extended by their duration.
  Where the list holds no keyframe there is nothing to pull and it is left as it is.
\<close>

definition gop_starts_with_keyframe :: "gop \<Rightarrow> bool" where
  "gop_starts_with_keyframe g \<longleftrightarrow> (case g_frames g of [] \<Rightarrow> False | f # _ \<Rightarrow> keyFrame f)"

definition extendFirstKeyFrame :: "gops \<Rightarrow> gops" where
  "extendFirstKeyFrame gs =
     (case gs_items gs of
        discarded # next # rest \<Rightarrow>
          (if gop_starts_with_keyframe discarded then gs
           else
             (case g_frames next of
                [] \<Rightarrow> gs
              | k # fs \<Rightarrow>
                  gs\<lparr> gs_items :=
                         next\<lparr> g_frames :=
                                 k\<lparr> f_dts := g_dts discarded, f_pts := g_pts discarded,
                                    f_duration := f_duration k + g_duration discarded \<rparr> # fs \<rparr>
                         # rest,
                       gs_byteLength := gs_byteLength gs - g_byteLength discarded,
                       gs_nalCount := gs_nalCount gs - g_nalCount discarded \<rparr>))
      | _ \<Rightarrow> gs)"

subsection \<open>The stream object\<close>

text \<open>
  The track, as far as the segmenter reads and writes it. \<^verbatim>\<open>track-decode-info\<close>
  (\<^verbatim>\<open>collectDtsInfo\<close>, \<^verbatim>\<open>clearDtsInfo\<close>, \<^verbatim>\<open>calculateTrackBaseMediaDecodeTime\<close>) is
  not among the source files; its functions are parameters, and what they keep on the
  track is \<open>vt_dtsInfo\<close>, of a type of their own. The sample table and the boxes
  (\<^verbatim>\<open>generateSampleTable\<close>, \<^verbatim>\<open>concatenateNalData\<close>, \<^verbatim>\<open>mp4.mdat\<close>, \<^verbatim>\<open>mp4.moof\<close>)
  are functions of the GOPs, the track and the sequence number, which the \<^verbatim>\<open>data\<close>
  event of the model carries in their place.
\<close>

record 'd video_track =
  vt_sps :: "bytes option"
  vt_pps :: "bytes option"
  timelineStartInfo_dts :: "int option"
  timelineStartInfo_pts :: "int option"
  vt_baseMediaDecodeTime :: int
  vt_dtsInfo :: 'd

record 'd video_externals =
  collectDtsInfo :: "'d video_track \<Rightarrow> int \<Rightarrow> int \<Rightarrow> 'd video_track"
  clearDtsInfo :: "'d video_track \<Rightarrow> 'd video_track"
  calculateTrackBaseMediaDecodeTime :: "'d video_track \<Rightarrow> bool \<Rightarrow> int"

record cached_gop =
  c_gop :: "gop option"
  c_pps :: "bytes option"
  c_sps :: "bytes option"

record 'd video_segment_stream =
  sequenceNumber :: nat
  nalUnits :: "nal list"
  gopsToAlignWith :: "int list"
  alignGopsAtEnd :: bool
  vs_keepOriginalTimestamps :: bool
  vs_track :: "'d video_track"
  gopCache :: "cached_gop list"
  waitForKeyFrame :: bool

text \<open>
  The constructor; \<open>gopsToAlignWith\<close> holds the \<^verbatim>\<open>pts\<close> of the GOPs to align with.
\<close>

definition video_init :: "'d video_track \<Rightarrow> bool \<Rightarrow> bool \<Rightarrow> 'd video_segment_stream" where
  "video_init t atEnd keep =
     \<lparr> sequenceNumber = 0, nalUnits = [], gopsToAlignWith = [], alignGopsAtEnd = atEnd,
       vs_keepOriginalTimestamps = keep, vs_track = t, gopCache = [], waitForKeyFrame = True \<rparr>"

record timing_info =
  start_dts :: int
  start_pts :: int
  end_dts :: int
  end_pts :: int
  prependedContentDuration :: int
  ti_baseMediaDecodeTime :: int

definition generateVideoSegmentTimingInfo :: "int \<Rightarrow> int \<Rightarrow> int \<Rightarrow> int \<Rightarrow> int \<Rightarrow> int \<Rightarrow> timing_info" where
  "generateVideoSegmentTimingInfo baseMediaDecodeTime startDts startPts endDts endPts prepended =
     (let ptsOffsetFromDts = startPts - startDts;
          decodeDuration = endDts - startDts;
          presentationDuration = endPts - startPts
      in \<lparr> start_dts = baseMediaDecodeTime,
           start_pts = baseMediaDecodeTime + ptsOffsetFromDts,
           end_dts = baseMediaDecodeTime + decodeDuration,
           end_pts = baseMediaDecodeTime + presentationDuration,
           prependedContentDuration = prepended,
           ti_baseMediaDecodeTime = baseMediaDecodeTime \<rparr>)"

datatype 'd video_event =
    VideoDone
  | ProcessedGopsInfo "(int \<times> int \<times> int) list"
  | SegmentTimingInfo timing_info
  | TimingInfo int int
  | BaseMediaDecodeTime int
  | TimelineStartInfo "int option" "int option"
  | VideoData "'d video_track" gops nat

text \<open>\<^verbatim>\<open>push(nalUnit)\<close>.\<close>

definition video_push :: "'d video_externals \<Rightarrow> 'd video_segment_stream \<Rightarrow> nal \<Rightarrow>
    'd video_segment_stream" where
  "video_push ext st nalUnit =
     (let t0 = collectDtsInfo ext (vs_track st) (nal_pts nalUnit) (nal_dts nalUnit);
          t1 = (if nalUnitType nalUnit = seq_parameter_set_rbsp
                then t0\<lparr> vt_sps := Some (nal_data nalUnit) \<rparr> else t0);
          t2 = (if nalUnitType nalUnit = pic_parameter_set_rbsp
                then t1\<lparr> vt_pps := Some (nal_data nalUnit) \<rparr> else t1)
      in st\<lparr> vs_track := t2, nalUnits := nalUnits st @ [nalUnit] \<rparr>)"

text \<open>
  The \<^verbatim>\<open>some\<close> scan at the head of \<^verbatim>\<open>flush\<close>: the index of the first delimiter
  seen (\<open>None\<close> for -1) and whether an IDR slice follows a delimiter. The scan stops at
  the first such slice.
\<close>

fun scanKeyFrame :: "nal list \<Rightarrow> nat \<Rightarrow> nat option \<Rightarrow> nat option \<times> bool" where
  "scanKeyFrame [] index firstAUD = (firstAUD, False)"
| "scanKeyFrame (n # ns) index firstAUD =
     (if nalUnitType n = access_unit_delimiter_rbsp
      then scanKeyFrame ns (index + 1) (if firstAUD = None then Some index else firstAUD)
      else if nalUnitType n = slice_layer_without_partitioning_rbsp_idr
      then (if firstAUD \<noteq> None then (firstAUD, True) else scanKeyFrame ns (index + 1) firstAUD)
      else scanKeyFrame ns (index + 1) firstAUD)"

text \<open>
  The loop \<^verbatim>\<open>for (let i = length - 1; i >= 0; i--)\<close> that looks for the last
  delimiter; \<open>lastAUD ns (length ns)\<close> is \<^verbatim>\<open>lastIndex\<close>, 0 when there is none.
\<close>

fun lastAUD :: "nal list \<Rightarrow> nat \<Rightarrow> nat" where
  "lastAUD ns 0 = 0"
| "lastAUD ns (Suc i) =
     (if nalUnitType (ns ! i) = access_unit_delimiter_rbsp then i else lastAUD ns i)"

text \<open>
  \<^verbatim>\<open>getGopForFusion_\<close>: the loop over the cache with \<^verbatim>\<open>nearestGopObj\<close> and
  \<^verbatim>\<open>nearestDistance\<close>. Reading \<^verbatim>\<open>pps[0]\<close> or \<^verbatim>\<open>sps[0]\<close> of a cache entry
  without them, or \<^verbatim>\<open>dts\<close> of an entry without a GOP, throws.
\<close>

fun fusionLoop :: "'d video_track \<Rightarrow> nal \<Rightarrow> cached_gop list \<Rightarrow> (cached_gop \<times> int) option \<Rightarrow>
    js_error + (cached_gop \<times> int) option" where
  "fusionLoop t nalUnit [] nearest = Inr nearest"
| "fusionLoop t nalUnit (currentGopObj # cache) nearest =
     (case vt_pps t of
        None \<Rightarrow> fusionLoop t nalUnit cache nearest
      | Some trackPps \<Rightarrow>
     (case c_pps currentGopObj of
        None \<Rightarrow> Inl TypeError
      | Some gopPps \<Rightarrow>
     if trackPps \<noteq> gopPps then fusionLoop t nalUnit cache nearest
     else
     (case vt_sps t of
        None \<Rightarrow> fusionLoop t nalUnit cache nearest
      | Some trackSps \<Rightarrow>
     (case c_sps currentGopObj of
        None \<Rightarrow> Inl TypeError
      | Some gopSps \<Rightarrow>
     if trackSps \<noteq> gopSps then fusionLoop t nalUnit cache nearest
     else
     (case c_gop currentGopObj of
        None \<Rightarrow> Inl TypeError
      | Some currentGop \<Rightarrow>
     if (case timelineStartInfo_dts t of None \<Rightarrow> False | Some d \<Rightarrow> g_dts currentGop < d)
     then fusionLoop t nalUnit cache nearest
     else
       (let dtsDistance = (nal_dts nalUnit - g_dts currentGop) - g_duration currentGop
        in if dtsDistance \<ge> - 10000 \<and> dtsDistance \<le> 45000 \<and>
              (case nearest of None \<Rightarrow> True | Some (_, nearestDistance) \<Rightarrow>
                 nearestDistance > dtsDistance)
           then fusionLoop t nalUnit cache (Some (currentGopObj, dtsDistance))
           else fusionLoop t nalUnit cache nearest))))))"

definition getGopForFusion :: "'d video_segment_stream \<Rightarrow> nal \<Rightarrow> js_error + gop option" where
  "getGopForFusion st nalUnit =
     (case fusionLoop (vs_track st) nalUnit (gopCache st) None of
        Inl e \<Rightarrow> Inl e
      | Inr None \<Rightarrow> Inr None
      | Inr (Some (nearestGopObj, _)) \<Rightarrow> Inr (c_gop nearestGopObj))"

text \<open>
  \<^verbatim>\<open>alignGopsAtStart_\<close>: the loop gives \<^verbatim>\<open>gopIndex\<close>; the result is the list as it
  is, \<^verbatim>\<open>null\<close> (\<open>None\<close>), or the list from \<^verbatim>\<open>gopIndex\<close> on, its aggregates reduced
  by those of the GOPs trimmed.
\<close>

fun alignStartLoop :: "int list \<Rightarrow> gop list \<Rightarrow> nat \<Rightarrow> nat" where
  "alignStartLoop [] gs gopIndex = gopIndex"
| "alignStartLoop (align # as) [] gopIndex = gopIndex"
| "alignStartLoop (align # as) (g # gs) gopIndex =
     (if align = g_pts g then gopIndex
      else if g_pts g > align then alignStartLoop as (g # gs) gopIndex
      else alignStartLoop (align # as) gs (gopIndex + 1))"

definition alignGopsAtStart :: "int list \<Rightarrow> gops \<Rightarrow> gops option" where
  "alignGopsAtStart toAlignWith gs =
     (let gopIndex = alignStartLoop toAlignWith (gs_items gs) 0;
          trimmed = take gopIndex (gs_items gs);
          aligned = drop gopIndex (gs_items gs)
      in if gopIndex = 0 then Some gs
         else if gopIndex = length (gs_items gs) then None
         else Some \<lparr> gs_items = aligned,
                     gs_pts = g_pts (hd aligned),
                     gs_dts = g_dts (hd aligned),
                     gs_duration = gs_duration gs - sum_list (map g_duration trimmed),
                     gs_byteLength = gs_byteLength gs - sum_list (map g_byteLength trimmed),
                     gs_nalCount = gs_nalCount gs - sum_list (map g_nalCount trimmed) \<rparr>)"

text \<open>
  \<^verbatim>\<open>alignGopsAtEnd_\<close>: the loop runs both indices down from the ends; \<open>a\<close> and
  \<open>g\<close> are \<^verbatim>\<open>alignIndex + 1\<close> and \<^verbatim>\<open>gopIndex + 1\<close>. It gives \<^verbatim>\<open>trimIndex\<close>:
  \<^verbatim>\<open>gopIndex\<close> at a match, else \<^verbatim>\<open>alignEndIndex\<close> (\<open>None\<close> for \<^verbatim>\<open>null\<close>).
\<close>

function alignEndLoop :: "int list \<Rightarrow> gop list \<Rightarrow> nat \<Rightarrow> nat \<Rightarrow> nat option \<Rightarrow> nat option" where
  "alignEndLoop toAlignWith gs a g alignEndIndex =
     (if a > 0 \<and> g > 0 then
        (if toAlignWith ! (a - 1) = g_pts (gs ! (g - 1)) then Some (g - 1)
         else if toAlignWith ! (a - 1) > g_pts (gs ! (g - 1))
         then alignEndLoop toAlignWith gs (a - 1) g alignEndIndex
         else alignEndLoop toAlignWith gs a (g - 1)
                (if a - 1 = length toAlignWith - 1 then Some (g - 1) else alignEndIndex))
      else alignEndIndex)"
  by pat_completeness auto
termination
  by (relation "measure (\<lambda>(toAlignWith, gs, a, g, alignEndIndex). a + g)") auto

definition alignGopsAtEnd_fn :: "int list \<Rightarrow> gops \<Rightarrow> gops option" where
  "alignGopsAtEnd_fn toAlignWith gs =
     (case alignEndLoop toAlignWith (gs_items gs) (length toAlignWith) (length (gs_items gs))
             None of
        None \<Rightarrow> None
      | Some trimIndex \<Rightarrow>
          (if trimIndex = 0 then Some gs
           else
             (let aligned = drop trimIndex (gs_items gs)
              in Some \<lparr> gs_items = aligned,
                        gs_pts = g_pts (hd aligned),
                        gs_dts = g_dts (hd aligned),
                        gs_duration = sum_list (map g_duration aligned),
                        gs_byteLength = sum_list (map g_byteLength aligned),
                        gs_nalCount = sum_list (map g_nalCount aligned) \<rparr>)))"

text \<open>
  \<^verbatim>\<open>this.gopCache_.unshift({gop: gops.pop(), pps, sps})\<close>, then at most six entries
  are kept. \<^verbatim>\<open>pop\<close> gives \<^verbatim>\<open>undefined\<close> on an empty list.
\<close>

definition cacheLastGop :: "'d video_segment_stream \<Rightarrow> gops \<Rightarrow> cached_gop list" where
  "cacheLastGop st gs =
     take 6 (\<lparr> c_gop = (if gs_items gs = [] then None else Some (last (gs_items gs))),
               c_pps = vt_pps (vs_track st),
               c_sps = vt_sps (vs_track st) \<rparr> # gopCache st)"

text \<open>\<^verbatim>\<open>gops[0][0]\<close>, \<open>None\<close> where reading it throws.\<close>

definition firstFrame :: "gops \<Rightarrow> frame option" where
  "firstFrame gs =
     (case gs_items gs of
        [] \<Rightarrow> None
      | g # _ \<Rightarrow> (case g_frames g of [] \<Rightarrow> None | f # _ \<Rightarrow> Some f))"

text \<open>
  The repair of a segment that does not start with a keyframe: GOP fusion where the
  cache has a candidate, keyframe pulling otherwise. The result is the list of GOPs and
  \<^verbatim>\<open>prependedContentDuration\<close>.
\<close>

definition repairFirstGop :: "'d video_segment_stream \<Rightarrow> nal \<Rightarrow> gops \<Rightarrow> js_error + (gops \<times> int)" where
  "repairFirstGop st firstNal gs =
     (case getGopForFusion st firstNal of
        Inl e \<Rightarrow> Inl e
      | Inr (Some gopForFusion) \<Rightarrow>
          Inr (gs\<lparr> gs_items := gopForFusion # gs_items gs,
                   gs_byteLength := gs_byteLength gs + g_byteLength gopForFusion,
                   gs_nalCount := gs_nalCount gs + g_nalCount gopForFusion,
                   gs_pts := g_pts gopForFusion,
                   gs_dts := g_dts gopForFusion,
                   gs_duration := gs_duration gs + g_duration gopForFusion \<rparr>,
               g_duration gopForFusion)
      | Inr None \<Rightarrow> Inr (extendFirstKeyFrame gs, 0))"

text \<open>
  The second half of \<^verbatim>\<open>flush\<close>, from the alignment on; \<open>st\<close> already has
  \<^verbatim>\<open>waitForKeyFrame\<close> false, \<open>gs\<close> is the list of GOPs after the repair. The
  \<^verbatim>\<open>data\<close> event carries the track as it is when the event is triggered.
\<close>

definition emitSegment :: "'d video_externals \<Rightarrow> 'd video_segment_stream \<Rightarrow> nat \<Rightarrow> gops \<Rightarrow> int \<Rightarrow>
    js_error + ('d video_event list \<times> 'd video_segment_stream)" where
  "emitSegment ext st lastIndex gs prepended =
     (let aligned =
            (if gopsToAlignWith st \<noteq> []
             then (if alignGopsAtEnd st then alignGopsAtEnd_fn (gopsToAlignWith st) gs
                   else alignGopsAtStart (gopsToAlignWith st) gs)
             else Some gs)
      in case aligned of
           None \<Rightarrow>
             Inr ([VideoDone],
                  st\<lparr> gopCache := cacheLastGop st gs,
                      nalUnits := drop lastIndex (nalUnits st),
                      vs_track := clearDtsInfo ext (vs_track st) \<rparr>)
         | Some gs1 \<Rightarrow>
             (case gs_items gs1 of
                [] \<Rightarrow> Inl TypeError
              | firstGop # _ \<Rightarrow>
                  (let t0 = (if gopsToAlignWith st \<noteq> [] then clearDtsInfo ext (vs_track st)
                             else vs_track st);
                       t1 = collectDtsInfo ext t0 (gs_pts gs1) (gs_dts gs1);
                       t2 = t1\<lparr> vt_baseMediaDecodeTime :=
                                  calculateTrackBaseMediaDecodeTime ext t1
                                    (vs_keepOriginalTimestamps st) \<rparr>;
                       lastGop = last (gs_items gs1);
                       st1 = st\<lparr> vs_track := t2 \<rparr>;
                       st2 = st1\<lparr> gopCache := cacheLastGop st1 gs1,
                                  nalUnits := drop lastIndex (nalUnits st),
                                  sequenceNumber := sequenceNumber st + 1 \<rparr>
                   in Inr ([ProcessedGopsInfo
                              (map (\<lambda>g. (g_pts g, g_dts g, g_byteLength g)) (gs_items gs1)),
                            SegmentTimingInfo
                              (generateVideoSegmentTimingInfo (vt_baseMediaDecodeTime t2)
                                 (g_dts firstGop) (g_pts firstGop)
                                 (g_dts lastGop + g_duration lastGop)
                                 (g_pts lastGop + g_duration lastGop) prepended),
                            TimingInfo (g_pts firstGop) (g_pts lastGop + g_duration lastGop),
                            BaseMediaDecodeTime (vt_baseMediaDecodeTime t2),
                            TimelineStartInfo (timelineStartInfo_dts t2)
                              (timelineStartInfo_pts t2),
                            VideoData t2 gs1 (sequenceNumber st),
                            VideoDone],
                           st2\<lparr> vs_track := clearDtsInfo ext t2 \<rparr>))))"

text \<open>
  The head of \<^verbatim>\<open>flush\<close>. \<open>containsKeyFrame\<close> is the result of the \<^verbatim>\<open>some\<close> scan;
  \<open>retainedNals\<close> is \<^verbatim>\<open>this.nalUnits\<close> after the NAL units in front of the first
  delimiter have been thrown away; \<open>segmentNals\<close> is \<^verbatim>\<open>nalUnits.slice(0, lastIndex)\<close>,
  the NAL units in front of the last delimiter.
\<close>

definition containsKeyFrame :: "'d video_segment_stream \<Rightarrow> bool" where
  "containsKeyFrame st = snd (scanKeyFrame (nalUnits st) 0 None)"

definition retainedNals :: "'d video_segment_stream \<Rightarrow> nal list" where
  "retainedNals st =
     (if waitForKeyFrame st
      then (case fst (scanKeyFrame (nalUnits st) 0 None) of
              Some firstAUD \<Rightarrow> drop firstAUD (nalUnits st)
            | None \<Rightarrow> nalUnits st)
      else dropWhile (\<lambda>n. \<not> is_aud n) (nalUnits st))"

definition segmentNals :: "'d video_segment_stream \<Rightarrow> nal list" where
  "segmentNals st =
     take (lastAUD (retainedNals st) (length (retainedNals st))) (retainedNals st)"

text \<open>\<^verbatim>\<open>flush()\<close>.\<close>

definition video_flush :: "'d video_externals \<Rightarrow> 'd video_segment_stream \<Rightarrow>
    js_error + ('d video_event list \<times> 'd video_segment_stream)" where
  "video_flush ext st =
     (let st1 = st\<lparr> nalUnits := retainedNals st \<rparr>
      in if waitForKeyFrame st \<and> \<not> containsKeyFrame st then Inr ([VideoDone], st1)
         else if nalUnits st1 = [] then
           Inr ([VideoDone], st1\<lparr> vs_track := clearDtsInfo ext (vs_track st1) \<rparr>)
         else
           (let lastIndex = lastAUD (nalUnits st1) (length (nalUnits st1))
            in if lastIndex = 0 then Inr ([VideoDone], st1)
               else
                 (let gs = groupFramesIntoGops (groupNalsIntoFrames (segmentNals st));
                      repaired =
                        (if waitForKeyFrame st1
                         then (case firstFrame gs of
                                 None \<Rightarrow> Inl TypeError
                               | Some f \<Rightarrow>
                                   if \<not> keyFrame f
                                   then repairFirstGop st1 (hd (segmentNals st)) gs
                                   else Inr (gs, 0))
                         else Inr (gs, 0))
                  in case repaired of
                       Inl e \<Rightarrow> Inl e
                     | Inr (gs1, prepended) \<Rightarrow>
                         emitSegment ext (st1\<lparr> waitForKeyFrame := False \<rparr>) lastIndex gs1
                           prepended)))"

text \<open>\<^verbatim>\<open>reset()\<close>.\<close>

definition video_reset :: "'d video_externals \<Rightarrow> 'd video_segment_stream \<Rightarrow> 'd video_segment_stream" where
  "video_reset ext st =
     st\<lparr> waitForKeyFrame := True, vs_track := clearDtsInfo ext (vs_track st), nalUnits := [],
         gopCache := [], gopsToAlignWith := [] \<rparr>"

text \<open>The \<^verbatim>\<open>data\<close> events among the events of a flush, and their first frames.\<close>

fun video_segments :: "'d video_event list \<Rightarrow> gops list" where
  "video_segments [] = []"
| "video_segments (VideoData t gs n # evs) = gs # video_segments evs"
| "video_segments (_ # evs) = video_segments evs"

text \<open>
  Externals that keep nothing on the track, and runs of pushes, for the examples below.
\<close>

definition plain_externals :: "unit video_externals" where
  "plain_externals =
     \<lparr> collectDtsInfo = (\<lambda>t p d. t), clearDtsInfo = (\<lambda>t. t),
       calculateTrackBaseMediaDecodeTime = (\<lambda>t keep. 0) \<rparr>"

definition plain_track :: "unit video_track" where
  "plain_track =
     \<lparr> vt_sps = None, vt_pps = None, timelineStartInfo_dts = None,
       timelineStartInfo_pts = None, vt_baseMediaDecodeTime = 0, vt_dtsInfo = () \<rparr>"

definition video_pushes :: "'d video_externals \<Rightarrow> 'd video_segment_stream \<Rightarrow> nal list \<Rightarrow>
    'd video_segment_stream" where
  "video_pushes ext st ns = foldl (video_push ext) st ns"

definition nalAt :: "nal_type \<Rightarrow> int \<Rightarrow> nal" where
  "nalAt t ts = \<lparr> nalUnitType = t, nal_data = [], nal_dts = ts, nal_pts = ts \<rparr>"

text \<open>A list of GOPs that is not empty and in which a keyframe starts every GOP.\<close>

definition keyed :: "gop list \<Rightarrow> bool" where
  "keyed gl \<longleftrightarrow> gl \<noteq> [] \<and> list_all gop_starts_with_keyframe gl"

text \<open>
  Two segments of a stream: the first has a keyframe and a second frame in front of its
  last delimiter; the second continues with two frames that are no keyframes.
\<close>

definition example_first_nals :: "nal list" where
  "example_first_nals =
     [nalAt access_unit_delimiter_rbsp 0, nalAt slice_layer_without_partitioning_rbsp_idr 0,
      nalAt access_unit_delimiter_rbsp 1, nalAt other_nal_unit_type 1,
      nalAt access_unit_delimiter_rbsp 2]"

definition example_second_nals :: "nal list" where
  "example_second_nals =
     [nalAt other_nal_unit_type 2,
      nalAt access_unit_delimiter_rbsp 3, nalAt other_nal_unit_type 3,
      nalAt access_unit_delimiter_rbsp 4]"

definition example_pushed :: "unit video_segment_stream" where
  "example_pushed =
     video_pushes plain_externals (video_init plain_track False False) example_first_nals"

text \<open>
  \<^verbatim>\<open>push\<close> of the first segment, \<^verbatim>\<open>flush()\<close>, \<^verbatim>\<open>push\<close> of the second segment,
  \<^verbatim>\<open>flush()\<close>: the result of the second flush.
\<close>

definition example_second_flush ::
    "js_error + (unit video_event list \<times> unit video_segment_stream)" where
  "example_second_flush =
     (case video_flush plain_externals example_pushed of
        Inl e \<Rightarrow> Inl e
      | Inr (evs, st) \<Rightarrow>
          video_flush plain_externals (video_pushes plain_externals st example_second_nals))"

text \<open>
  The stream object in front of the second flush: the first segment has been pushed and
  flushed, the second segment has been pushed.
\<close>

definition example_continued :: "unit video_segment_stream" where
  "example_continued =
     (case video_flush plain_externals example_pushed of
        Inl e \<Rightarrow> example_pushed
      | Inr (evs, st) \<Rightarrow> video_pushes plain_externals st example_second_nals)"

text \<open>
  A first segment that does not start with a keyframe: a frame without an IDR slice, a
  keyframe, and a third frame in front of the last delimiter.
\<close>

definition example_late_nals :: "nal list" where
  "example_late_nals =
     [nalAt access_unit_delimiter_rbsp 0, nalAt other_nal_unit_type 0,
      nalAt access_unit_delimiter_rbsp 1, nalAt slice_layer_without_partitioning_rbsp_idr 1,
      nalAt access_unit_delimiter_rbsp 2, nalAt other_nal_unit_type 2,
      nalAt access_unit_delimiter_rbsp 3]"

definition example_late :: "unit video_segment_stream" where
  "example_late =
     video_pushes plain_externals (video_init plain_track False False) example_late_nals"

chapter \<open>Properties\<close>

section \<open>TransportPacketStream: chunk boundaries are unobservable\<close>

declare packetLoop.simps [simp del]

lemma packetLoop_stop:
  "\<not> s + 188 < length ev \<Longrightarrow> packetLoop ev s = ([], s)"
  by (simp add: packetLoop.simps MP2T_PACKET_LENGTH_def)

lemma packetLoop_emit:
  "s + 188 < length ev \<Longrightarrow> ev ! s = SYNC_BYTE \<and> ev ! (s + 188) = SYNC_BYTE \<Longrightarrow>
   packetLoop ev s = (case packetLoop ev (s + 188) of (out, k) \<Rightarrow> (subarray ev s (s + 188) # out, k))"
  by (subst packetLoop.simps) (simp add: MP2T_PACKET_LENGTH_def Let_def)

lemma packetLoop_skip:
  "s + 188 < length ev \<Longrightarrow> \<not> (ev ! s = SYNC_BYTE \<and> ev ! (s + 188) = SYNC_BYTE) \<Longrightarrow>
   packetLoop ev s = packetLoop ev (s + 1)"
  by (subst packetLoop.simps) (auto simp: MP2T_PACKET_LENGTH_def Let_def)

lemma packetLoop_cases [consumes 0, case_names stop emit skip]:
  assumes "\<not> s + 188 < length ev \<Longrightarrow> P"
    and "s + 188 < length ev \<Longrightarrow> ev ! s = SYNC_BYTE \<and> ev ! (s + 188) = SYNC_BYTE \<Longrightarrow> P"
    and "s + 188 < length ev \<Longrightarrow> \<not> (ev ! s = SYNC_BYTE \<and> ev ! (s + 188) = SYNC_BYTE) \<Longrightarrow> P"
  shows P
  using assms by blast


lemma packetLoop_le: "s \<le> snd (packetLoop ev s)"
proof (induction ev s rule: packetLoop.induct)
  case (1 ev s)
  show ?case
  proof (cases rule: packetLoop_cases[of s ev])
    case stop then show ?thesis by (simp add: packetLoop_stop)
  next
    case emit
    with "1.IH"(1) have "s + 188 \<le> snd (packetLoop ev (s + 188))"
      by (simp add: MP2T_PACKET_LENGTH_def)
    with emit show ?thesis by (auto simp: packetLoop_emit split: prod.splits)
  next
    case skip
    with "1.IH"(2) have "s + 1 \<le> snd (packetLoop ev (s + 1))"
      by (simp add: MP2T_PACKET_LENGTH_def)
    with skip show ?thesis by (simp add: packetLoop_skip)
  qed
qed

lemma packetLoop_exit: "length ev \<le> snd (packetLoop ev s) + 188"
proof (induction ev s rule: packetLoop.induct)
  case (1 ev s)
  show ?case
  proof (cases rule: packetLoop_cases[of s ev])
    case stop then show ?thesis by (simp add: packetLoop_stop)
  next
    case emit
    with "1.IH"(1) have "length ev \<le> snd (packetLoop ev (s + 188)) + 188"
      by (simp add: MP2T_PACKET_LENGTH_def)
    with emit show ?thesis by (auto simp: packetLoop_emit split: prod.splits)
  next
    case skip
    with "1.IH"(2) have "length ev \<le> snd (packetLoop ev (s + 1)) + 188"
      by (simp add: MP2T_PACKET_LENGTH_def)
    with skip show ?thesis by (simp add: packetLoop_skip)
  qed
qed

lemma packetLoop_within: "s \<le> length ev \<Longrightarrow> snd (packetLoop ev s) \<le> length ev"
proof (induction ev s rule: packetLoop.induct)
  case (1 ev s)
  show ?case
  proof (cases rule: packetLoop_cases[of s ev])
    case stop with "1.prems" show ?thesis by (simp add: packetLoop_stop)
  next
    case emit
    with "1.IH"(1) have "snd (packetLoop ev (s + 188)) \<le> length ev"
      by (simp add: MP2T_PACKET_LENGTH_def)
    with emit show ?thesis by (auto simp: packetLoop_emit split: prod.splits)
  next
    case skip
    with "1.IH"(2) have "snd (packetLoop ev (s + 1)) \<le> length ev"
      by (simp add: MP2T_PACKET_LENGTH_def)
    with skip show ?thesis by (simp add: packetLoop_skip)
  qed
qed

text \<open>Bytes appended behind the data do not change what the loop has done so far.\<close>

lemma packetLoop_append:
  "packetLoop (A @ B) s =
     (case packetLoop A s of (o1, s1) \<Rightarrow>
      case packetLoop (A @ B) s1 of (o2, s2) \<Rightarrow> (o1 @ o2, s2))"
proof (induction A s rule: packetLoop.induct)
  case (1 A s)
  show ?case
  proof (cases rule: packetLoop_cases[of s A])
    case stop then show ?thesis by (simp add: packetLoop_stop split: prod.splits)
  next
    case emit
    then have lt: "s + 188 < length (A @ B)" by simp
    from emit have sync: "(A @ B) ! s = SYNC_BYTE \<and> (A @ B) ! (s + 188) = SYNC_BYTE"
      by (simp add: nth_append)
    from emit have sub: "subarray (A @ B) s (s + 188) = subarray A s (s + 188)"
      by (simp add: subarray_def)
    from "1.IH"(1) emit
    have ih: "packetLoop (A @ B) (s + 188) =
       (case packetLoop A (s + 188) of (o1, s1) \<Rightarrow>
        case packetLoop (A @ B) s1 of (o2, s2) \<Rightarrow> (o1 @ o2, s2))"
      by (simp add: MP2T_PACKET_LENGTH_def)
    show ?thesis
      using ih by (simp add: packetLoop_emit[OF lt sync] packetLoop_emit[OF emit] sub split: prod.splits)
  next
    case skip
    then have lt: "s + 188 < length (A @ B)" by simp
    from skip have sync: "\<not> ((A @ B) ! s = SYNC_BYTE \<and> (A @ B) ! (s + 188) = SYNC_BYTE)"
      by (simp add: nth_append)
    from "1.IH"(2) skip
    have ih: "packetLoop (A @ B) (s + 1) =
       (case packetLoop A (s + 1) of (o1, s1) \<Rightarrow>
        case packetLoop (A @ B) s1 of (o2, s2) \<Rightarrow> (o1 @ o2, s2))"
      by (simp add: MP2T_PACKET_LENGTH_def)
    show ?thesis
      using ih by (simp add: packetLoop_skip[OF lt sync] packetLoop_skip[OF skip])
  qed
qed

text \<open>Bytes already consumed can be cut off in front.\<close>

lemma packetLoop_shift:
  "packetLoop (xs @ ev) (length xs + s) =
     (case packetLoop ev s of (out, k) \<Rightarrow> (out, length xs + k))"
proof (induction ev s rule: packetLoop.induct)
  case (1 ev s)
  show ?case
  proof (cases rule: packetLoop_cases[of s ev])
    case stop then show ?thesis by (simp add: packetLoop_stop)
  next
    case emit
    then have lt: "length xs + s + 188 < length (xs @ ev)" by simp
    from emit have sync: "(xs @ ev) ! (length xs + s) = SYNC_BYTE \<and>
        (xs @ ev) ! (length xs + s + 188) = SYNC_BYTE"
      by (simp add: nth_append)
    have sub: "subarray (xs @ ev) (length xs + s) (length xs + (s + 188)) = subarray ev s (s + 188)"
      by (simp add: subarray_def)
    from "1.IH"(1) emit
    have ih: "packetLoop (xs @ ev) (length xs + (s + 188)) =
       (case packetLoop ev (s + 188) of (out, k) \<Rightarrow> (out, length xs + k))"
      by (simp add: MP2T_PACKET_LENGTH_def)
    show ?thesis
      using ih
      by (simp add: packetLoop_emit[OF lt sync] packetLoop_emit[OF emit] sub add.assoc split: prod.splits)
  next
    case skip
    then have lt: "length xs + s + 188 < length (xs @ ev)" by simp
    from skip have sync: "\<not> ((xs @ ev) ! (length xs + s) = SYNC_BYTE \<and>
        (xs @ ev) ! (length xs + s + 188) = SYNC_BYTE)"
      by (simp add: nth_append)
    from "1.IH"(2) skip
    have ih: "packetLoop (xs @ ev) (length xs + (s + 1)) =
       (case packetLoop ev (s + 1) of (out, k) \<Rightarrow> (out, length xs + k))"
      by (simp add: MP2T_PACKET_LENGTH_def)
    show ?thesis
      using ih
      by (simp add: packetLoop_skip[OF lt sync] packetLoop_skip[OF skip] add.assoc)
  qed
qed


lemma live_push:
  assumes "packet_push st bs = (ev, st')"
  shows "live st' = drop (snd (packetLoop (live st @ bs) 0)) (live st @ bs)"
    and "ev = map PacketData (fst (packetLoop (live st @ bs) 0))"
    and "packet_stream_ok st \<Longrightarrow> packet_stream_ok st'"
proof -
  let ?E = "live st @ bs"
  have E: "(if bytesInBuffer st \<noteq> 0 then subarray (buffer st) 0 (bytesInBuffer st) @ bs else bs) = ?E"
    by (simp add: live_def subarray_def)
  obtain out k where r: "packetLoop ?E 0 = (out, k)" by force
  have exit: "length ?E \<le> k + 188" using packetLoop_exit[of ?E 0] r by simp
  from assms show "ev = map PacketData (fst (packetLoop ?E 0))"
    unfolding packet_push_def E Let_def r by auto
  from assms show "live st' = drop (snd (packetLoop ?E 0)) ?E"
    unfolding packet_push_def E Let_def r
    by (auto simp: live_def buffer_set_def split: if_splits)
  assume ok: "packet_stream_ok st"
  from assms ok exit show "packet_stream_ok st'"
    unfolding packet_push_def E Let_def r
    by (auto simp: packet_stream_ok_def buffer_set_def split: if_splits)
qed

lemma flush_live:
  assumes "packet_stream_ok st" "packet_stream_ok st'" "live st = live st'"
  shows "fst (packet_flush st) = fst (packet_flush st')"
proof -
  from assms have n: "bytesInBuffer st = bytesInBuffer st'"
    by (metis live_def length_take min.absorb2 packet_stream_ok_def)
  show ?thesis
  proof (cases "bytesInBuffer st = 188")
    case True
    with assms n have "buffer st = buffer st'"
      by (simp add: live_def packet_stream_ok_def)
    with n show ?thesis by (simp add: packet_flush_def)
  next
    case False
    with n show ?thesis by (simp add: packet_flush_def MP2T_PACKET_LENGTH_def)
  qed
qed

text \<open>
  Claim C2. For every byte sequence and every partition of it into two chunks \<open>A\<close> and
  \<open>B\<close>, \<^verbatim>\<open>push(A); push(B); flush()\<close> triggers exactly the same sequence of events
  (the same 188-byte packets, byte for byte, then \<^verbatim>\<open>done\<close>) as
  \<^verbatim>\<open>push(A || B); flush()\<close>, from every state of the stream object (a 188-byte
  buffer with at most 188 live bytes, which every state reached from the constructor is).
\<close>

theorem C2_chunking_unobservable:
  assumes ok: "packet_stream_ok st"
  shows "push_push_flush st A B = push_flush st (A @ B)"
proof -
  let ?L = "live st"
  obtain e1 s1 where p1: "packet_push st A = (e1, s1)" by force
  obtain e2 s2 where p2: "packet_push s1 B = (e2, s2)" by force
  obtain e s where p: "packet_push st (A @ B) = (e, s)" by force
  obtain o1 k1 where l1: "packetLoop (?L @ A) 0 = (o1, k1)" by force
  obtain o2 k2 where l2: "packetLoop (?L @ A @ B) k1 = (o2, k2)" by force
  have k1: "k1 \<le> length (?L @ A)" using packetLoop_within[of 0 "?L @ A"] l1 by simp
  have k12: "k1 \<le> k2" using packetLoop_le[of k1 "?L @ A @ B"] l2 by simp
  have whole: "packetLoop (?L @ A @ B) 0 = (o1 @ o2, k2)"
    using packetLoop_append[of "?L @ A" B 0] l1 l2 by simp
  have live1: "live s1 = drop k1 (?L @ A)" using live_push(1)[OF p1] l1 by simp
  have "?L @ A @ B = (take k1 (?L @ A) @ drop k1 (?L @ A)) @ B"
    unfolding append_take_drop_id by simp
  then have split: "?L @ A @ B = take k1 (?L @ A) @ (live s1 @ B)"
    unfolding live1 append_assoc .
  have lenk: "length (take k1 (?L @ A)) = k1" using k1 by simp
  have "packetLoop (take k1 (?L @ A) @ (live s1 @ B)) (length (take k1 (?L @ A)) + 0) =
      (case packetLoop (live s1 @ B) 0 of (out, k) \<Rightarrow> (out, length (take k1 (?L @ A)) + k))"
    by (rule packetLoop_shift)
  then have "packetLoop (?L @ A @ B) (k1 + 0) =
      (case packetLoop (live s1 @ B) 0 of (out, k) \<Rightarrow> (out, k1 + k))"
    unfolding split[symmetric] lenk .
  then have "(o2, k2) = (case packetLoop (live s1 @ B) 0 of (out, k) \<Rightarrow> (out, k1 + k))"
    using l2 by simp
  then have second: "packetLoop (live s1 @ B) 0 = (o2, k2 - k1)"
    by (cases "packetLoop (live s1 @ B) 0") auto
  have ev1: "e1 = map PacketData o1" using live_push(2)[OF p1] l1 by simp
  have ev2: "e2 = map PacketData o2" using live_push(2)[OF p2] second by simp
  have ev: "e = map PacketData (o1 @ o2)" using live_push(2)[OF p] whole by simp
  have live2: "live s2 = drop (k2 - k1) (live s1 @ B)" using live_push(1)[OF p2] second by simp
  have lives: "live s = drop k2 (?L @ A @ B)" using live_push(1)[OF p] whole by simp
  have dd: "drop k2 X = drop (k2 - k1) (drop k1 X)" for X :: bytes
    using k12 by simp
  have da: "drop k1 (X @ B) = drop k1 X @ B" if "k1 \<le> length X" for X :: bytes
    using that by simp
  have "drop k1 (?L @ A @ B) = live s1 @ B"
    using da[of "?L @ A"] k1 live1 by simp
  then have same: "live s2 = live s"
    using dd[of "?L @ A @ B"] live2 lives by simp
  have ok1: "packet_stream_ok s1" using live_push(3)[OF p1 ok] .
  have ok2: "packet_stream_ok s2" using live_push(3)[OF p2 ok1] .
  have oks: "packet_stream_ok s" using live_push(3)[OF p ok] .
  have fl: "fst (packet_flush s2) = fst (packet_flush s)" by (rule flush_live[OF ok2 oks same])
  show ?thesis
    using fl by (auto simp: push_push_flush_def push_flush_def p1 p2 p ev1 ev2 ev split: prod.splits)
qed


text \<open>The theorem at the freshly constructed stream and two chunks of 100 sync bytes.\<close>

theorem C2_chunking_witness:
  "packet_stream_ok packet_stream_init \<and>
   push_push_flush packet_stream_init (replicate 100 SYNC_BYTE) (replicate 100 SYNC_BYTE) =
   push_flush packet_stream_init (replicate 100 SYNC_BYTE @ replicate 100 SYNC_BYTE)"
proof -
  have ok: "packet_stream_ok packet_stream_init"
    by (simp add: packet_stream_ok_def packet_stream_init_def)
  show ?thesis using ok C2_chunking_unobservable [OF ok] by simp
qed

section \<open>TransportParseStream: the program map\<close>

lemma pmt_entry_video:
  "pm_video (pmt_entry broad pm e) =
     (if pm_video pm = None \<and> is_video_entry broad e then Some (es_pid e) else pm_video pm)"
  by (auto simp: pmt_entry_def is_video_entry_def Let_def split: option.splits list.splits)

lemma foldl_pmt_video:
  "pm_video (foldl (pmt_entry broad) pm es) =
     (case pm_video pm of
        Some v \<Rightarrow> Some v
      | None \<Rightarrow> map_option es_pid (find (is_video_entry broad) es))"
proof (induction es arbitrary: pm)
  case Nil
  then show ?case by (simp split: option.splits)
next
  case (Cons e es)
  show ?case
    by (simp add: Cons.IH pmt_entry_video split: option.splits)
qed

text \<open>
  Claim C5. For every PMT payload handed to \<^verbatim>\<open>parsePmt\<close>: if the
  \<^verbatim>\<open>current_next_indicator\<close> (bit 0 of byte 6 of the payload) is zero, the stream object
  and with it the program map are left as they were; otherwise the program map is
  replaced by a map that does not depend on the old one (it is built from the entries of
  this PMT alone), and its \<^verbatim>\<open>video\<close> is the PID of the first entry, in the order of
  the PMT, that is detected as video (\<^verbatim>\<open>null\<close> when there is none).
\<close>

theorem C5_pmt_atomic_swap:
  "(int32 (byteAt payload 6) AND 0x01 = 0 \<longrightarrow>
      parsePmt psi st payload = (st, None)) \<and>
   (int32 (byteAt payload 6) AND 0x01 \<noteq> 0 \<longrightarrow>
      (\<exists>pm. (\<forall>old. parsePmt psi (st\<lparr> programMapTable := old \<rparr>) payload =
                      (st\<lparr> programMapTable := Some pm \<rparr>, Some pm)) \<and>
            pm_video pm =
              map_option es_pid (find (is_video_entry (broadStreamDetection st)) (psi payload))))"
proof (intro conjI impI)
  assume "int32 (byteAt payload 6) AND 0x01 = 0"
  then show "parsePmt psi st payload = (st, None)" by (simp add: parsePmt_def)
next
  assume cur: "int32 (byteAt payload 6) AND 0x01 \<noteq> 0"
  let ?pm = "foldl (pmt_entry (broadStreamDetection st)) empty_program_map (psi payload)"
  have "\<forall>old. parsePmt psi (st\<lparr> programMapTable := old \<rparr>) payload =
                (st\<lparr> programMapTable := Some ?pm \<rparr>, Some ?pm)"
    using cur by (simp add: parsePmt_def Let_def)
  moreover have "pm_video ?pm =
      map_option es_pid (find (is_video_entry (broadStreamDetection st)) (psi payload))"
    by (simp add: foldl_pmt_video empty_program_map_def)
  ultimately show "\<exists>pm. (\<forall>old. parsePmt psi (st\<lparr> programMapTable := old \<rparr>) payload =
                      (st\<lparr> programMapTable := Some pm \<rparr>, Some pm)) \<and>
            pm_video pm =
              map_option es_pid (find (is_video_entry (broadStreamDetection st)) (psi payload))"
    by blast
qed


text \<open>
  The theorem at an ignored PMT and at a PMT with two H.264 streams (PIDs 256 and 258)
  around an AAC stream: the first one becomes \<^verbatim>\<open>video\<close>.
\<close>

theorem C5_pmt_atomic_swap_witness:
  "int32 (byteAt [0, 2, 0xB0, 0x12, 0, 1, 0xC0] 6) AND 0x01 = 0 \<and>
   parsePmt (\<lambda>payload. []) (parse_stream_init False) [0, 2, 0xB0, 0x12, 0, 1, 0xC0] =
     (parse_stream_init False, None) \<and>
   int32 (byteAt [0, 2, 0xB0, 0x12, 0, 1, 0xC1] 6) AND 0x01 \<noteq> 0 \<and>
   (\<exists>pm. (\<forall>old. parsePmt
               (\<lambda>payload. [\<lparr> es_type = 0x1B, es_pid = 256, esInfos = [] \<rparr>,
                            \<lparr> es_type = 0x0F, es_pid = 257, esInfos = [] \<rparr>,
                            \<lparr> es_type = 0x1B, es_pid = 258, esInfos = [] \<rparr>])
               (parse_stream_init False\<lparr> programMapTable := old \<rparr>)
               [0, 2, 0xB0, 0x12, 0, 1, 0xC1] =
             (parse_stream_init False\<lparr> programMapTable := Some pm \<rparr>, Some pm)) \<and>
         pm_video pm = Some 256)"
proof -
  let ?psi = "\<lambda>payload :: bytes. [\<lparr> es_type = 0x1B, es_pid = 256, esInfos = [] \<rparr>,
                            \<lparr> es_type = 0x0F, es_pid = 257, esInfos = [] \<rparr>,
                            \<lparr> es_type = 0x1B, es_pid = 258, esInfos = [] \<rparr>]"
  have h0: "int32 (byteAt [0, 2, 0xB0, 0x12, 0, 1, 0xC0] 6) AND 0x01 = 0"
    by (simp add: byteAt_def int32_def)
  have h1: "int32 (byteAt [0, 2, 0xB0, 0x12, 0, 1, 0xC1] 6) AND 0x01 \<noteq> 0"
    by (simp add: byteAt_def int32_def)
  have v: "map_option es_pid (find (is_video_entry (broadStreamDetection (parse_stream_init False)))
             (?psi [0, 2, 0xB0, 0x12, 0, 1, 0xC1])) = Some 256"
    by (simp add: is_video_entry_def detectVideoStream_def parse_stream_init_def VIDEO_H264_def)
  show ?thesis
    using C5_pmt_atomic_swap [of "[0, 2, 0xB0, 0x12, 0, 1, 0xC0]" "\<lambda>payload. []"
        "parse_stream_init False"]
      C5_pmt_atomic_swap [of "[0, 2, 0xB0, 0x12, 0, 1, 0xC1]" ?psi "parse_stream_init False"]
      h0 h1 unfolding v by simp
qed

section \<open>TransportParseStream: packets waiting for the PMT\<close>

text \<open>
  A packet of an unknown PID that arrives while no program map is set is queued, and
  nothing is triggered for it.
\<close>

lemma queue_before_pmt:
  assumes "packet_pid packet \<noteq> 0" "Some (packet_pid packet) \<noteq> pmtPid st"
    and "programMapTable st = None"
  shows "parse_push psi st packet =
     Inr ([], st\<lparr> packetsWaitingForPmt := packetsWaitingForPmt st @
                [(packet, packet_offset packet, packet_pusi packet, packet_pid packet)] \<rparr>)"
  using assms by (simp add: parse_push_def Let_def)

lemma drainWaiting_map:
  "programMapTable st = Some pm \<Longrightarrow> drainWaiting st waiting = Inr (map (forwarded pm) waiting)"
  by (induction waiting) (auto simp: processPes_def forwarded_def Let_def)

text \<open>
  A PMT packet that takes effect (\<^verbatim>\<open>current_next_indicator\<close> set) is followed by the
  queued packets as PES events, in the order of their arrival, and the queue is empty
  afterwards.
\<close>

lemma drain_on_current_pmt:
  assumes "packet_pid packet \<noteq> 0" "Some (packet_pid packet) = pmtPid st"
    and "int32 (byteAt (subarray_from packet (packet_offset packet)) 6) AND 0x01 \<noteq> 0"
  shows "\<exists>pm. parse_push psi st packet =
     Inr (Pmt (packet_pusi packet) (packet_pid packet) (Some pm) #
            map (forwarded pm) (packetsWaitingForPmt st),
          st\<lparr> programMapTable := Some pm, packetsWaitingForPmt := [] \<rparr>)"
proof -
  let ?payload = "subarray_from packet (packet_offset packet)"
  let ?pm = "foldl (pmt_entry (broadStreamDetection st)) empty_program_map (psi ?payload)"
  have p: "parsePmt psi st ?payload = (st\<lparr> programMapTable := Some ?pm \<rparr>, Some ?pm)"
    using assms(3) by (simp add: parsePmt_def Let_def)
  have d: "drainWaiting (st\<lparr> programMapTable := Some ?pm \<rparr>) (packetsWaitingForPmt st) =
      Inr (map (forwarded ?pm) (packetsWaitingForPmt st))"
    by (rule drainWaiting_map) simp
  have "parse_push psi st packet =
     Inr (Pmt (packet_pusi packet) (packet_pid packet) (Some ?pm) #
            map (forwarded ?pm) (packetsWaitingForPmt st),
          st\<lparr> programMapTable := Some ?pm, packetsWaitingForPmt := [] \<rparr>)"
    using assms(1,2) by (simp add: parse_push_def Let_def p d)
  then show ?thesis ..
qed

text \<open>
  A PMT packet that is ignored leaves \<^verbatim>\<open>programMapTable\<close> undefined, and the drain
  loop, which runs all the same, throws on the first queued packet.
\<close>

lemma ignored_pmt_throws:
  assumes "packet_pid packet \<noteq> 0" "Some (packet_pid packet) = pmtPid st"
    and "int32 (byteAt (subarray_from packet (packet_offset packet)) 6) AND 0x01 = 0"
    and "programMapTable st = None" "packetsWaitingForPmt st \<noteq> []"
  shows "parse_push psi st packet = Inl TypeError"
proof -
  let ?payload = "subarray_from packet (packet_offset packet)"
  have p: "parsePmt psi st ?payload = (st, None)"
    using assms(3) by (simp add: parsePmt_def)
  from assms(5) obtain e w where q: "packetsWaitingForPmt st = e # w"
    by (cases "packetsWaitingForPmt st") auto
  have d: "drainWaiting st (packetsWaitingForPmt st) = Inl TypeError"
    unfolding q using assms(4) by (simp add: processPes_def split: prod.splits)
  show ?thesis
    using assms(1,2) by (simp add: parse_push_def Let_def p d)
qed

text \<open>
  Claim C6 at a failing input. A packet of PID 257 arrives first and is queued; a PAT
  announces the PMT on PID 4096; the first PMT packet has \<^verbatim>\<open>current_next_indicator\<close>
  0. \<^verbatim>\<open>push\<close> throws a \<^verbatim>\<open>TypeError\<close> (\<^verbatim>\<open>processPes_\<close> reads
  \<^verbatim>\<open>this.programMapTable.video\<close> of \<^verbatim>\<open>undefined\<close>) instead of forwarding the
  queued packet, whatever the PMT section holds (\<open>psi\<close> is arbitrary).
\<close>

theorem C6_ignored_pmt_throws:
  "parse_push psi (parse_stream_init False) [0x47, 0x41, 0x01, 0x10, 0xAA] =
     Inr ([], \<lparr> broadStreamDetection = False, pmtPid = None, programMapTable = None,
               packetsWaitingForPmt = [([0x47, 0x41, 0x01, 0x10, 0xAA], Some 4, True, 257)] \<rparr>) \<and>
   parse_push psi
     \<lparr> broadStreamDetection = False, pmtPid = None, programMapTable = None,
       packetsWaitingForPmt = [([0x47, 0x41, 0x01, 0x10, 0xAA], Some 4, True, 257)] \<rparr>
     [0x47, 0x40, 0x00, 0x10, 0x00, 0x00, 0xB0, 0x0D, 0x00, 0x01, 0xC1, 0x00, 0x00,
      0x00, 0x01, 0xF0, 0x00] =
     Inr ([Pat True 0 (Some 0) (Some 0) 4096],
          \<lparr> broadStreamDetection = False, pmtPid = Some 4096, programMapTable = None,
            packetsWaitingForPmt = [([0x47, 0x41, 0x01, 0x10, 0xAA], Some 4, True, 257)] \<rparr>) \<and>
   parse_push psi
     \<lparr> broadStreamDetection = False, pmtPid = Some 4096, programMapTable = None,
       packetsWaitingForPmt = [([0x47, 0x41, 0x01, 0x10, 0xAA], Some 4, True, 257)] \<rparr>
     [0x47, 0x50, 0x00, 0x10, 0x00, 0x02, 0xB0, 0x12, 0x00, 0x01, 0xC0, 0x00, 0x00] =
     Inl TypeError"
proof (intro conjI)
  show "parse_push psi (parse_stream_init False) [0x47, 0x41, 0x01, 0x10, 0xAA] =
     Inr ([], \<lparr> broadStreamDetection = False, pmtPid = None, programMapTable = None,
               packetsWaitingForPmt = [([0x47, 0x41, 0x01, 0x10, 0xAA], Some 4, True, 257)] \<rparr>)"
    by (simp add: parse_push_def parse_stream_init_def packet_pid_def packet_pusi_def
        packet_offset_def byteAt_def int32_def Let_def)
  show "parse_push psi
     \<lparr> broadStreamDetection = False, pmtPid = None, programMapTable = None,
       packetsWaitingForPmt = [([0x47, 0x41, 0x01, 0x10, 0xAA], Some 4, True, 257)] \<rparr>
     [0x47, 0x40, 0x00, 0x10, 0x00, 0x00, 0xB0, 0x0D, 0x00, 0x01, 0xC1, 0x00, 0x00,
      0x00, 0x01, 0xF0, 0x00] =
     Inr ([Pat True 0 (Some 0) (Some 0) 4096],
          \<lparr> broadStreamDetection = False, pmtPid = Some 4096, programMapTable = None,
            packetsWaitingForPmt = [([0x47, 0x41, 0x01, 0x10, 0xAA], Some 4, True, 257)] \<rparr>)"
    by (simp add: parse_push_def packet_pid_def packet_pusi_def packet_offset_def
        psi_offset_def parsePat_pmtPid_def subarray_from_def byteAt_def int32_def Let_def)
  show "parse_push psi
     \<lparr> broadStreamDetection = False, pmtPid = Some 4096, programMapTable = None,
       packetsWaitingForPmt = [([0x47, 0x41, 0x01, 0x10, 0xAA], Some 4, True, 257)] \<rparr>
     [0x47, 0x50, 0x00, 0x10, 0x00, 0x02, 0xB0, 0x12, 0x00, 0x01, 0xC0, 0x00, 0x00] =
     Inl TypeError"
    by (simp add: parse_push_def packet_pid_def packet_pusi_def packet_offset_def
        parsePmt_def processPes_def subarray_from_def byteAt_def int32_def Let_def)
qed

section \<open>parsePes: the 33-bit timestamps\<close>

lemma int32_byteVal: "uint (int32 b) = byteVal b"
  by (cases b) (simp_all add: int32_def byteVal_def is_up uint_up_ucast)

lemma bit_int32: "bit (int32 b) n \<longleftrightarrow> bit (byteVal b) n"
  by (cases b) (auto simp: int32_def byteVal_def bit_simps dest: bit_imp_le_length)

lemma bit_byteVal: "bit (byteVal b) n \<Longrightarrow> n < 8"
  by (cases b) (auto simp: byteVal_def bit_simps dest: bit_imp_le_length)

lemma ts31_bit31: "\<not> bit (timestamp31 b0 b1 b2 b3 b4) 31"
  unfolding timestamp31_def
  by (auto simp: bit_simps bit_int32 dest: bit_byteVal)


lemma sint_ts31: "sint (timestamp31 b0 b1 b2 b3 b4) = uint (timestamp31 b0 b1 b2 b3 b4)"
  using ts31_bit31[of b0 b1 b2 b3 b4]
  by (intro bit_eqI) (auto simp: bit_sint_iff bit_uint_iff dest: bit_imp_le_length)

lemma bit_0x0E: "bit (0x0E :: int) n \<longleftrightarrow> 1 \<le> n \<and> n < 4"
proof -
  have "(0x0E :: int) = push_bit 1 (mask 3)" by (simp add: mask_eq_exp_minus_1)
  then show ?thesis by (auto simp only: bit_simps) auto
qed

lemma bit_0xFE: "bit (0xFE :: int) n \<longleftrightarrow> 1 \<le> n \<and> n < 8"
proof -
  have "(0xFE :: int) = push_bit 1 (mask 7)" by (simp add: mask_eq_exp_minus_1)
  then show ?thesis by (auto simp only: bit_simps) auto
qed

lemma bit_0x06: "bit (0x06 :: int) n \<longleftrightarrow> 1 \<le> n \<and> n < 3"
proof -
  have "(0x06 :: int) = push_bit 1 (mask 2)" by (simp add: mask_eq_exp_minus_1)
  then show ?thesis by (auto simp only: bit_simps) auto
qed

lemma bit_0xFF: "bit (0xFF :: int) n \<longleftrightarrow> n < 8"
proof -
  have "(0xFF :: int) = mask 8" by (simp add: mask_eq_exp_minus_1)
  then show ?thesis by (auto simp only: bit_simps) auto
qed

lemma bit_0x7F: "bit (0x7F :: int) n \<longleftrightarrow> n < 7"
proof -
  have "(0x7F :: int) = mask 7" by (simp add: mask_eq_exp_minus_1)
  then show ?thesis by (auto simp only: bit_simps) auto
qed

lemma bit_0x03: "bit (0x03 :: int) n \<longleftrightarrow> n < 2"
proof -
  have "(0x03 :: int) = mask 2" by (simp add: mask_eq_exp_minus_1)
  then show ?thesis by (auto simp only: bit_simps) auto
qed

lemmas ts_bits = bit_simps bit_0x0E bit_0xFE bit_0x06 bit_0xFF bit_0x03 bit_0x7F

lemma ts_part0: "uint (push_bit 27 (int32 b AND 0x0E)) = push_bit 27 (byteVal b AND 0x0E)"
  unfolding unsigned_push_bit_eq unsigned_and_eq int32_byteVal
  by (intro bit_eqI) (auto simp: ts_bits simp del: push_bit_and dest: bit_byteVal)

lemma ts_part1: "uint (push_bit 20 (int32 b AND 0xFF)) = push_bit 20 (byteVal b)"
  unfolding unsigned_push_bit_eq unsigned_and_eq int32_byteVal
  by (intro bit_eqI) (auto simp: ts_bits simp del: push_bit_and dest: bit_byteVal)

lemma ts_part2: "uint (push_bit 12 (int32 b AND 0xFE)) = push_bit 12 (byteVal b AND 0xFE)"
  unfolding unsigned_push_bit_eq unsigned_and_eq int32_byteVal
  by (intro bit_eqI) (auto simp: ts_bits simp del: push_bit_and dest: bit_byteVal)

lemma ts_part3: "uint (push_bit 5 (int32 b AND 0xFF)) = push_bit 5 (byteVal b)"
  unfolding unsigned_push_bit_eq unsigned_and_eq int32_byteVal
  by (intro bit_eqI) (auto simp: ts_bits simp del: push_bit_and dest: bit_byteVal)

lemma ts_part4: "uint (drop_bit 3 (int32 b AND 0xFE)) = drop_bit 3 (byteVal b)"
  unfolding unsigned_drop_bit_eq unsigned_and_eq int32_byteVal
  by (intro bit_eqI) (auto simp: ts_bits simp del: drop_bit_and dest: bit_byteVal)

lemma ts_part5: "uint (drop_bit 1 (int32 b AND 0x06)) = drop_bit 1 (byteVal b AND 0x06)"
  unfolding unsigned_drop_bit_eq unsigned_and_eq int32_byteVal
  by (intro bit_eqI) (auto simp: ts_bits simp del: drop_bit_and dest: bit_byteVal)

lemma ts31_uint: "uint (timestamp31 b0 b1 b2 b3 b4) =
     push_bit 27 (byteVal b0 AND 0x0E) OR
     push_bit 20 (byteVal b1) OR
     push_bit 12 (byteVal b2 AND 0xFE) OR
     push_bit 5 (byteVal b3) OR
     drop_bit 3 (byteVal b4)"
  unfolding timestamp31_def unsigned_or_eq ts_part0 ts_part1 ts_part2 ts_part3 ts_part4 ..

text \<open>The two low bits join the upper five of the last byte.\<close>

lemma ts_low: "push_bit 2 (drop_bit 3 (byteVal b)) OR drop_bit 1 (byteVal b AND 0x06) =
    drop_bit 1 (byteVal b AND 0xFE)"
  by (intro bit_eqI) (auto simp: ts_bits simp del: drop_bit_and dest: bit_byteVal)

lemma ts_add_low: "push_bit 2 x + drop_bit 1 (byteVal b AND 0x06) =
    push_bit 2 x OR drop_bit 1 (byteVal b AND 0x06)" for x :: int
  by (rule disjunctive_add) (auto simp: ts_bits simp del: drop_bit_and)

lemma timestamp33_spec:
  "timestamp33 b0 b1 b2 b3 b4 =
   spec_timestamp (byteVal b0) (byteVal b1) (byteVal b2) (byteVal b3) (byteVal b4)"
proof -
  let ?hi = "push_bit 27 (byteVal b0 AND 0x0E) OR push_bit 20 (byteVal b1) OR
     push_bit 12 (byteVal b2 AND 0xFE) OR push_bit 5 (byteVal b3)"
  have "timestamp33 b0 b1 b2 b3 b4 =
      push_bit 2 (?hi OR drop_bit 3 (byteVal b4)) + drop_bit 1 (byteVal b4 AND 0x06)"
    unfolding timestamp33_def sint_ts31 ts31_uint ts_part5
    by (simp only: push_bit_eq_mult or.assoc) simp
  also have "\<dots> = push_bit 2 (?hi OR drop_bit 3 (byteVal b4)) OR drop_bit 1 (byteVal b4 AND 0x06)"
    by (rule ts_add_low)
  also have "\<dots> = push_bit 2 ?hi OR (push_bit 2 (drop_bit 3 (byteVal b4)) OR drop_bit 1 (byteVal b4 AND 0x06))"
    by (simp only: push_bit_or or.assoc)
  also have "\<dots> = push_bit 2 ?hi OR drop_bit 1 (byteVal b4 AND 0xFE)"
    by (simp only: ts_low)
  also have "\<dots> = spec_timestamp (byteVal b0) (byteVal b1) (byteVal b2) (byteVal b3) (byteVal b4)"
    unfolding spec_timestamp_def
    by (simp only: push_bit_or push_bit_push_bit or.assoc) simp
  finally show ?thesis .
qed

lemma timestamp33_range:
  "0 \<le> timestamp33 b0 b1 b2 b3 b4 \<and> timestamp33 b0 b1 b2 b3 b4 < 2 ^ 33"
proof -
  let ?W = "timestamp31 b0 b1 b2 b3 b4"
  have w0: "0 \<le> sint ?W" unfolding sint_ts31 by simp
  have w1: "sint ?W < 2 ^ 31" using sint_lt[of ?W] by simp
  define v where "v = byteVal b4 AND 0x06"
  have a: "v \<le> 6" unfolding v_def by (rule AND_upper2) simp
  have b: "0 \<le> v" unfolding v_def by simp
  have l: "0 \<le> drop_bit 1 v \<and> drop_bit 1 v \<le> 3"
    unfolding drop_bit_eq_div using a b by simp
  show ?thesis
    unfolding timestamp33_def ts_part5 v_def[symmetric] using w0 w1 l by simp
qed


lemma prefix_core:
  fixes x y z :: byte
  shows "push_bit 16 (ucast x) OR push_bit 8 (ucast y) OR ucast z = (1 :: 32 word) \<longleftrightarrow>
         x = 0 \<and> y = 0 \<and> z = 1"
proof
  assume e: "push_bit 16 (ucast x) OR push_bit 8 (ucast y) OR ucast z = (1 :: 32 word)"
  have b: "bit (push_bit 16 (ucast x :: 32 word) OR push_bit 8 (ucast y) OR ucast z) n \<Longrightarrow> n = 0"
    for n unfolding e by (simp add: bit_1_iff)
  have "x = 0"
  proof (rule bit_eqI)
    fix m
    have "\<not> bit x m"
    proof
      assume h: "bit x m"
      then have "m < 8" by (auto dest: bit_imp_le_length)
      with h have "bit (push_bit 16 (ucast x :: 32 word) OR push_bit 8 (ucast y) OR ucast z) (m + 16)"
        by (simp add: bit_simps)
      from b[OF this] show False by simp
    qed
    then show "bit x m \<longleftrightarrow> bit (0 :: byte) m" by simp
  qed
  moreover have "y = 0"
  proof (rule bit_eqI)
    fix m
    have "\<not> bit y m"
    proof
      assume h: "bit y m"
      then have "m < 8" by (auto dest: bit_imp_le_length)
      with h have "bit (push_bit 16 (ucast x :: 32 word) OR push_bit 8 (ucast y) OR ucast z) (m + 8)"
        by (simp add: bit_simps)
      from b[OF this] show False by simp
    qed
    then show "bit y m \<longleftrightarrow> bit (0 :: byte) m" by simp
  qed
  ultimately have xy: "x = 0" "y = 0" by simp_all
  from e have "ucast z = (1 :: 32 word)" unfolding xy by simp
  then have u: "bit (ucast z :: 32 word) m \<longleftrightarrow> m = 0" for m by (simp add: bit_1_iff)
  have "z = 1"
  proof (rule bit_eqI)
    fix m show "bit z m \<longleftrightarrow> bit (1 :: byte) m"
      using u[of m] by (auto simp: bit_ucast_iff bit_1_iff dest: bit_imp_le_length)
  qed
  with xy show "x = 0 \<and> y = 0 \<and> z = 1" by simp
next
  assume "x = 0 \<and> y = 0 \<and> z = 1"
  then show "push_bit 16 (ucast x) OR push_bit 8 (ucast y) OR ucast z = (1 :: 32 word)" by simp
qed


lemma prefix_short:
  fixes a b :: "32 word"
  shows "push_bit 16 a OR push_bit 8 b \<noteq> 1"
proof
  assume e: "push_bit 16 a OR push_bit 8 b = 1"
  have "bit (push_bit 16 a OR push_bit 8 b) 0 \<longleftrightarrow> bit (1 :: 32 word) 0"
    unfolding e ..
  then show False by (simp add: bit_simps)
qed

lemma startPrefix_iff: "startPrefix payload = 1 \<longleftrightarrow> take 3 payload = [0, 0, 1]"
proof (cases "3 \<le> length payload")
  case True
  then obtain x y z rest where p: "payload = x # y # z # rest"
    by (cases payload; cases "tl payload"; cases "tl (tl payload)") auto
  show ?thesis
    unfolding startPrefix_def p using prefix_core[of x y z]
    by (simp add: byteAt_def int32_def)
next
  case False
  then have n: "byteAt payload 2 = None" by (simp add: byteAt_def)
  from False have "length (take 3 payload) \<noteq> 3" by simp
  then have "take 3 payload \<noteq> [0, 0, 1]" by auto
  then show ?thesis
    unfolding startPrefix_def n using prefix_short by (simp add: int32_def)
qed

lemma flags_bit7: "x AND 0x80 \<noteq> 0 \<Longrightarrow> x AND 0xC0 \<noteq> 0" for x :: "32 word"
proof
  assume a: "x AND 0x80 \<noteq> 0" and b: "x AND 0xC0 = 0"
  have "x AND 0x80 = (x AND 0xC0) AND 0x80" by (simp add: and.assoc)
  with a b show False by simp
qed

text \<open>
  Claim C3. For every reassembled PES packet (bytes that begin with the start-code prefix
  00 00 01) whose header carries timestamps (bit 7 of the flags byte 7 set), the
  \<^verbatim>\<open>pts\<close> computed by \<^verbatim>\<open>parsePes\<close> is exactly the 33-bit value assembled from bytes
  9..13 across the marker bits, as the specification's formula gives it on unbounded
  integers, a value from 0 to \<open>2^33 - 1\<close>; \<^verbatim>\<open>dts\<close> is decoded in the same way from
  bytes 14..18 when bit 6 is set as well, and otherwise equals \<^verbatim>\<open>pts\<close>.
\<close>

theorem C3_pes_timestamps:
  assumes "take 3 payload = [0, 0, 1]"
    and "int32 (byteAt payload 7) AND 0x80 \<noteq> 0"
  shows "pts (parsePes payload pes) = Some (spec_timestamp_at payload 9) \<and>
         0 \<le> spec_timestamp_at payload 9 \<and> spec_timestamp_at payload 9 < 2 ^ 33 \<and>
         dts (parsePes payload pes) =
           (if int32 (byteAt payload 7) AND 0x40 \<noteq> 0
            then Some (spec_timestamp_at payload 14)
            else pts (parsePes payload pes))"
proof -
  have sp: "startPrefix payload = 1" using assms(1) by (simp add: startPrefix_iff)
  have fl: "int32 (byteAt payload 7) AND 0xC0 \<noteq> 0" using assms(2) by (rule flags_bit7)
  have r: "0 \<le> spec_timestamp_at payload 9 \<and> spec_timestamp_at payload 9 < 2 ^ 33"
    using timestamp33_range[of "byteAt payload 9" "byteAt payload (9 + 1)"
        "byteAt payload (9 + 2)" "byteAt payload (9 + 3)" "byteAt payload (9 + 4)"]
    unfolding spec_timestamp_at_def timestamp33_spec .
  show ?thesis
    using r sp fl by (simp add: parsePes_def Let_def timestamp33_spec spec_timestamp_at_def)
qed


text \<open>
  The theorem at a header with both flags, the largest PTS (\<open>2^33 - 1\<close>, all value
  bits set) and the DTS 0 (marker bits only).
\<close>

theorem C3_pes_timestamps_witness:
  "take 3 [0, 0, 1, 0xE0, 0, 0, 0x80, 0xC0, 10, 0x0F, 0xFF, 0xFF, 0xFF, 0xFF, 0x11, 0, 1, 0, 1 :: byte]
     = [0, 0, 1] \<and>
   int32 (byteAt [0, 0, 1, 0xE0, 0, 0, 0x80, 0xC0, 10, 0x0F, 0xFF, 0xFF, 0xFF, 0xFF, 0x11, 0, 1, 0, 1] 7)
     AND 0x80 \<noteq> 0 \<and>
   pts (parsePes [0, 0, 1, 0xE0, 0, 0, 0x80, 0xC0, 10, 0x0F, 0xFF, 0xFF, 0xFF, 0xFF, 0x11, 0, 1, 0, 1] (new_event VIDEO 256))
     = Some (2 ^ 33 - 1) \<and>
   dts (parsePes [0, 0, 1, 0xE0, 0, 0, 0x80, 0xC0, 10, 0x0F, 0xFF, 0xFF, 0xFF, 0xFF, 0x11, 0, 1, 0, 1] (new_event VIDEO 256))
     = Some 0"
proof -
  let ?p = "[0, 0, 1, 0xE0, 0, 0, 0x80, 0xC0, 10, 0x0F, 0xFF, 0xFF, 0xFF, 0xFF, 0x11, 0, 1, 0, 1 :: byte]"
  have h1: "take 3 ?p = [0, 0, 1]" by simp
  have h2: "int32 (byteAt ?p 7) AND 0x80 \<noteq> 0" by (simp add: byteAt_def int32_def)
  have h3: "int32 (byteAt ?p 7) AND 0x40 \<noteq> 0" by (simp add: byteAt_def int32_def)
  have v1: "spec_timestamp_at ?p 9 = 2 ^ 33 - 1"
    by (simp add: spec_timestamp_at_def spec_timestamp_def byteAt_def byteVal_def)
  have v2: "spec_timestamp_at ?p 14 = 0"
    by (simp add: spec_timestamp_at_def spec_timestamp_def byteAt_def byteVal_def)
  show ?thesis
    using C3_pes_timestamps [OF h1 h2, of "new_event VIDEO 256"] h1 h2 h3 v1 v2 by simp
qed

section \<open>flushStream: accumulators without a start code\<close>

lemma reassemble_concat:
  "length packetData = offset + length (concat (map fdata frags)) \<Longrightarrow>
   reassemble packetData offset frags = Inr (take offset packetData @ concat (map fdata frags))"
proof (induction frags arbitrary: packetData offset)
  case Nil
  then show ?case by simp
next
  case (Cons f frags)
  let ?pd = "take offset packetData @ fdata f @ drop (offset + length (fdata f)) packetData"
  from Cons.prems have len: "length ?pd = (offset + length (fdata f)) + length (concat (map fdata frags))"
    by simp
  from Cons.prems have fits: "offset + length (fdata f) \<le> length packetData" by simp
  have "take (offset + length (fdata f)) ?pd = take offset packetData @ fdata f"
    using fits by simp
  with Cons.IH[OF len] fits show ?case by simp
qed

lemma reassemble_ok:
  "stream_ok stream \<Longrightarrow>
   reassemble (replicate (ssize stream) 0) 0 (sdata stream) = Inr (concat (map fdata (sdata stream)))"
  using reassemble_concat[of "replicate (ssize stream) 0" 0 "sdata stream"]
  by (simp add: stream_ok_def)

lemma parsePes_no_prefix:
  "startPrefix payload \<noteq> 1 \<Longrightarrow> parsePes payload (new_event type track) = new_event type track"
  by (simp add: parsePes_def new_event_def)

lemma packetLength_new_event: "packetLength (new_event type track) = None"
  by (simp add: new_event_def)

text \<open>
  Claim C7, as amended. A flush of a PES accumulator whose reassembled bytes do not begin
  with the start-code prefix 00 00 01 does nothing while fewer than nine bytes are
  buffered. Otherwise, for audio and timed metadata it triggers no event, and empties
  the accumulator exactly when the flush is forced (by the start of a new unit); for
  video it empties the accumulator and triggers one \<^verbatim>\<open>data\<close> event, which has an
  empty payload and neither packet length nor timestamps.
\<close>

theorem C7_flush_without_start_code:
  assumes "stream_ok stream"
    and "take 3 (concat (map fdata (sdata stream))) \<noteq> [0, 0, 1]"
  shows "flushStream stream type forceFlush =
     (if sdata stream = [] \<or> ssize stream < 9 then Inr ([], stream)
      else Inr (if type = VIDEO then [new_event VIDEO (pid (hd (sdata stream)))] else [],
                if type = VIDEO \<or> forceFlush then stream\<lparr> sdata := [], ssize := 0 \<rparr>
                else stream))"
proof (cases "sdata stream = [] \<or> ssize stream < 9")
  case True
  then show ?thesis by (auto simp: flushStream_def)
next
  case False
  have sp: "startPrefix (concat (map fdata (sdata stream))) \<noteq> 1"
    using assms(2) by (simp add: startPrefix_iff)
  show ?thesis
    using False
    by (simp add: flushStream_def reassemble_ok[OF assms(1)] parsePes_no_prefix[OF sp]
        Let_def packetLength_new_event)
qed

text \<open>The theorem at an audio accumulator holding nine bytes FF, flushed by a new unit.\<close>

theorem C7_flush_without_start_code_witness:
  "stream_ok \<lparr> sdata = [\<lparr> payloadUnitStartIndicator = True, pid = 257,
                            streamType = Some AUDIO_ADTS, fdata = [0xFF, 0xFF, 0xFF, 0xFF, 0xFF, 0xFF, 0xFF, 0xFF, 0xFF] \<rparr>],
               ssize = 9 \<rparr> \<and>
   take 3 (concat (map fdata [\<lparr> payloadUnitStartIndicator = True, pid = 257,
                            streamType = Some AUDIO_ADTS, fdata = [0xFF, 0xFF, 0xFF, 0xFF, 0xFF, 0xFF, 0xFF, 0xFF, 0xFF] \<rparr>]))
     \<noteq> [0, 0, 1] \<and>
   flushStream \<lparr> sdata = [\<lparr> payloadUnitStartIndicator = True, pid = 257,
                            streamType = Some AUDIO_ADTS, fdata = [0xFF, 0xFF, 0xFF, 0xFF, 0xFF, 0xFF, 0xFF, 0xFF, 0xFF] \<rparr>],
                 ssize = 9 \<rparr> AUDIO True = Inr ([], \<lparr> sdata = [], ssize = 0 \<rparr>)"
proof -
  let ?f = "\<lparr> payloadUnitStartIndicator = True, pid = 257,
              streamType = Some AUDIO_ADTS, fdata = [0xFF, 0xFF, 0xFF, 0xFF, 0xFF, 0xFF, 0xFF, 0xFF, 0xFF :: byte] \<rparr>"
  let ?s = "\<lparr> sdata = [?f], ssize = 9 \<rparr>"
  have ok: "stream_ok ?s" by (simp add: stream_ok_def)
  have np: "take 3 (concat (map fdata (sdata ?s))) \<noteq> [0, 0, 1]"
    by simp
  show ?thesis
    using C7_flush_without_start_code [OF ok np, of AUDIO True] ok np by simp
qed

text \<open>
  The claim as stated fails for video: nine buffered bytes FF, not a start code, and the
  flush triggers a \<^verbatim>\<open>data\<close> event all the same (with an empty payload and no
  timestamps).
\<close>

theorem C7_video_event_counterexample:
  "take 3 (concat (map fdata [\<lparr> payloadUnitStartIndicator = True, pid = 256,
                            streamType = Some VIDEO_H264, fdata = [0xFF, 0xFF, 0xFF, 0xFF, 0xFF, 0xFF, 0xFF, 0xFF, 0xFF] \<rparr>]))
     \<noteq> [0, 0, 1] \<and>
   flushStream \<lparr> sdata = [\<lparr> payloadUnitStartIndicator = True, pid = 256,
                            streamType = Some VIDEO_H264, fdata = [0xFF, 0xFF, 0xFF, 0xFF, 0xFF, 0xFF, 0xFF, 0xFF, 0xFF] \<rparr>],
                 ssize = 9 \<rparr> VIDEO True =
     Inr ([\<lparr> etype = VIDEO, trackId = 256, edata = [], packetLength = None,
             dataAlignmentIndicator = None, pts = None, dts = None \<rparr>],
          \<lparr> sdata = [], ssize = 0 \<rparr>)"
  by (simp add: flushStream_def parsePes_def startPrefix_def byteAt_def int32_def
      new_event_def Let_def)

section \<open>The order of flushStreams\<close>

lemma parsePes_keeps:
  "etype (parsePes p e) = etype e \<and> trackId (parsePes p e) = trackId e"
  by (simp add: parsePes_def Let_def)

lemma stream_ok_empty: "stream_ok (s\<lparr> sdata := [], ssize := 0 \<rparr>)"
  by (simp add: stream_ok_def)

lemma flushStream_total:
  assumes "stream_ok s"
  shows "\<exists>evs s'. flushStream s type force = Inr (evs, s') \<and> stream_ok s' \<and>
           (s' = s \<or> s' = s\<lparr> sdata := [], ssize := 0 \<rparr>) \<and>
           list_all (\<lambda>e. etype e = type \<and> trackId e = pid (hd (sdata s))) evs \<and>
           length evs \<le> 1"
  using assms
  by (auto simp: flushStream_def reassemble_ok Let_def parsePes_keeps stream_ok_empty new_event_def)

lemma flushAll_total:
  assumes "list_all (\<lambda>(p, s). stream_ok s \<and> list_all (\<lambda>f. pid f = p) (sdata s)) xs"
    and "sorted_wrt (<) (map fst xs)"
  shows "\<exists>evs xs'. flushAll type xs = Inr (evs, xs') \<and>
           map fst xs' = map fst xs \<and>
           list_all (\<lambda>(p, s). stream_ok s \<and> list_all (\<lambda>f. pid f = p) (sdata s)) xs' \<and>
           list_all (\<lambda>e. etype e = type) evs \<and>
           sorted_wrt (<) (map trackId evs) \<and> set (map trackId evs) \<subseteq> set (map fst xs)"
  using assms
proof (induction xs)
  case Nil
  then show ?case by simp
next
  case (Cons x xs)
  obtain p s where x: "x = (p, s)" by force
  from Cons.prems x have ok: "stream_ok s" and pids: "list_all (\<lambda>f. pid f = p) (sdata s)"
    and rest: "list_all (\<lambda>(p, s). stream_ok s \<and> list_all (\<lambda>f. pid f = p) (sdata s)) xs"
    and srt: "sorted_wrt (<) (map fst xs)" and low: "\<forall>k\<in>set (map fst xs). p < k"
    by simp_all
  from flushStream_total[OF ok, of type False] obtain evs s' where
    f: "flushStream s type False = Inr (evs, s')" and ok': "stream_ok s'"
    and s': "s' = s \<or> s' = s\<lparr> sdata := [], ssize := 0 \<rparr>"
    and evs: "list_all (\<lambda>e. etype e = type \<and> trackId e = pid (hd (sdata s))) evs"
    and len: "length evs \<le> 1" by blast
  from Cons.IH[OF rest srt] obtain evs2 xs' where
    r: "flushAll type xs = Inr (evs2, xs')" and keys: "map fst xs' = map fst xs"
    and oks: "list_all (\<lambda>(p, s). stream_ok s \<and> list_all (\<lambda>f. pid f = p) (sdata s)) xs'"
    and ty: "list_all (\<lambda>e. etype e = type) evs2"
    and ys: "sorted_wrt (<) (map trackId evs2)" "set (map trackId evs2) \<subseteq> set (map fst xs)"
    by blast
  have pids': "list_all (\<lambda>f. pid f = p) (sdata s')" using s' pids by auto
  have res: "flushAll type (x # xs) = Inr (evs @ evs2, (p, s') # xs')"
    by (simp add: x f r)
  have tr: "sorted_wrt (<) (map trackId (evs @ evs2)) \<and>
      set (map trackId (evs @ evs2)) \<subseteq> set (map fst (x # xs))"
  proof (cases evs)
    case Nil
    with ys show ?thesis by auto
  next
    case (Cons e es)
    with len have es: "es = []" by simp
    from f Cons have ne: "sdata s \<noteq> []" by (auto simp: flushStream_def)
    with pids have "pid (hd (sdata s)) = p" by (cases "sdata s") simp_all
    with evs Cons have e: "trackId e = p" by simp
    have above: "\<forall>k\<in>set (map trackId evs2). p < k" using low ys(2) by blast
    have "sorted_wrt (<) (p # map trackId evs2)" using above ys(1) by simp
    moreover have "set (p # map trackId evs2) \<subseteq> set (p # map fst xs)" using ys(2) by auto
    ultimately show ?thesis unfolding Cons es x using e by simp
  qed
  from evs have ty1: "list_all (\<lambda>e. etype e = type) evs" by (simp add: list_all_iff)
  show ?case
    using res keys oks ty ty1 ok' pids' tr x by auto
qed


text \<open>Every state reached from the constructor satisfies the invariant.\<close>

lemma obj_set_keys: "set (map fst (obj_set m k v)) = insert k (set (map fst m))"
  by (induction m k v rule: obj_set.induct) auto

lemma obj_set_sorted:
  "sorted_wrt (<) (map fst m) \<Longrightarrow> sorted_wrt (<) (map fst (obj_set m k v))"
proof (induction m k v rule: obj_set.induct)
  case (1 k v)
  then show ?case by simp
next
  case (2 k' v' m k v)
  then show ?case
    using obj_set_keys[of m k v] by auto
qed

lemma obj_set_all: "list_all P m \<Longrightarrow> P (k, v) \<Longrightarrow> list_all P (obj_set m k v)"
  by (induction m k v rule: obj_set.induct) auto

lemma es_ok_init: "es_ok elementary_stream_init"
  by (simp add: es_ok_def elementary_stream_init_def defaultStream_def stream_ok_def)

lemma stream_ok_append:
  "stream_ok s \<Longrightarrow> stream_ok (s\<lparr> sdata := sdata s @ [f], ssize := ssize s + length (fdata f) \<rparr>)"
  by (simp add: stream_ok_def)

lemma get_stream_ok:
  assumes "es_ok st"
  shows "stream_ok (get_stream st a)"
    and "a = AudioAcc p \<Longrightarrow> list_all (\<lambda>f. pid f = p) (sdata (get_stream st a))"
proof -
  have au: "map_of (audio st) q = Some s \<Longrightarrow> stream_ok s \<and> list_all (\<lambda>f. pid f = q) (sdata s)" for q s
  proof -
    assume "map_of (audio st) q = Some s"
    then have "(q, s) \<in> set (audio st)" by (rule map_of_SomeD)
    with assms show ?thesis by (auto simp: es_ok_def list_all_iff)
  qed
  show "stream_ok (get_stream st a)"
    using assms au by (cases a) (auto simp: get_stream_def es_ok_def defaultStream_def stream_ok_def split: option.splits)
  show "list_all (\<lambda>f. pid f = p) (sdata (get_stream st a))" if "a = AudioAcc p"
    using that au by (auto simp: get_stream_def defaultStream_def split: option.splits)
qed

lemma put_stream_ok:
  assumes "es_ok st" "stream_ok s" "\<And>p. a = AudioAcc p \<Longrightarrow> list_all (\<lambda>f. pid f = p) (sdata s)"
  shows "es_ok (put_stream st a s)"
  using assms
  by (cases a) (auto simp: put_stream_def es_ok_def obj_set_sorted intro!: obj_set_all)

lemma es_ok_push:
  assumes "es_ok st" "elementary_push st d = Inr (evs, st')"
  shows "es_ok st'"
proof (cases d)
  case (Pat x1 x2 x3 x4 x5)
  with assms show ?thesis by (simp add: elementary_push_def)
next
  case (Pmt x1 x2 table)
  with assms show ?thesis
    by (cases table) (auto simp: elementary_push_def es_ok_def)
next
  case (Pes frag)
  show ?thesis
  proof (cases "select_stream frag")
    case None
    with Pes assms show ?thesis by (simp add: elementary_push_def)
  next
    case (Some sel)
    obtain a t where sel: "sel = (a, t)" by force
    let ?g = "get_stream st a"
    have g: "stream_ok ?g" by (rule get_stream_ok(1)[OF assms(1)])
    from flushStream_total[OF g, of t True] obtain fe s1 where
      f: "flushStream ?g t True = Inr (fe, s1)" and s1: "stream_ok s1"
      and alt: "s1 = ?g \<or> s1 = ?g\<lparr> sdata := [], ssize := 0 \<rparr>" by blast
    define s2 where "s2 = (if payloadUnitStartIndicator frag then s1 else ?g)"
    have s2: "stream_ok s2" and alt2: "s2 = ?g \<or> s2 = ?g\<lparr> sdata := [], ssize := 0 \<rparr>"
      using s1 g alt by (auto simp: s2_def)
    let ?s3 = "s2\<lparr> sdata := sdata s2 @ [frag], ssize := ssize s2 + length (fdata frag) \<rparr>"
    have st': "st' = put_stream st a ?s3"
      using assms(2) Pes Some sel f by (auto simp: elementary_push_def s2_def split: if_splits)
    have ok3: "stream_ok ?s3" by (rule stream_ok_append[OF s2])
    have pid3: "list_all (\<lambda>f. pid f = p) (sdata ?s3)" if "a = AudioAcc p" for p
    proof -
      from Some sel that have "pid frag = p"
        by (auto simp: select_stream_def split: if_splits)
      moreover have "list_all (\<lambda>f. pid f = p) (sdata s2)"
        using alt2 get_stream_ok(2)[OF assms(1) that] by auto
      ultimately show ?thesis by simp
    qed
    show ?thesis unfolding st' by (rule put_stream_ok[OF assms(1) ok3 pid3])
  qed
qed

lemma sorted_const: "\<forall>e\<in>set xs. f e = (c :: nat) \<Longrightarrow> sorted (map f xs)"
  by (induction xs) auto

lemma sorted_rank_append:
  assumes "list_all (\<lambda>e. etype e = VIDEO) ev" "list_all (\<lambda>e. etype e = AUDIO) ea"
    "list_all (\<lambda>e. etype e = SUBTITLES) es" "list_all (\<lambda>e. etype e = TIMED_METADATA) et"
  shows "sorted (map (\<lambda>e. type_rank (etype e)) (ev @ ea @ es @ et))"
proof -
  have r: "\<forall>e\<in>set ev. type_rank (etype e) = 0" "\<forall>e\<in>set ea. type_rank (etype e) = 1"
    "\<forall>e\<in>set es. type_rank (etype e) = 2" "\<forall>e\<in>set et. type_rank (etype e) = 3"
    using assms by (auto simp: list_all_iff type_rank_def)
  show ?thesis
    using r sorted_const[OF r(1)] sorted_const[OF r(2)] sorted_const[OF r(3)] sorted_const[OF r(4)]
    by (auto simp: sorted_append)
qed

lemma filter_audio:
  assumes "list_all (\<lambda>e. etype e = VIDEO) ev" "list_all (\<lambda>e. etype e = AUDIO) ea"
    "list_all (\<lambda>e. etype e = SUBTITLES) es" "list_all (\<lambda>e. etype e = TIMED_METADATA) et"
  shows "filter (\<lambda>e. etype e = AUDIO) (ev @ ea @ es @ et) = ea"
proof -
  have "filter (\<lambda>e. etype e = AUDIO) ev = []" using assms(1) by (auto simp: list_all_iff filter_empty_conv)
  moreover have "filter (\<lambda>e. etype e = AUDIO) es = []" using assms(3) by (auto simp: list_all_iff filter_empty_conv)
  moreover have "filter (\<lambda>e. etype e = AUDIO) et = []" using assms(4) by (auto simp: list_all_iff filter_empty_conv)
  moreover have "filter (\<lambda>e. etype e = AUDIO) ea = ea" using assms(2) by (auto simp: list_all_iff filter_id_conv)
  ultimately show ?thesis by simp
qed

lemma flushAll_subtitles:
  assumes "list_all (\<lambda>(p, s). stream_ok s) xs"
  shows "\<exists>evs xs'. flushAll type xs = Inr (evs, xs') \<and>
           list_all (\<lambda>(p, s). stream_ok s) xs' \<and> list_all (\<lambda>e. etype e = type) evs"
  using assms
proof (induction xs)
  case Nil
  then show ?case by simp
next
  case (Cons x xs)
  obtain p s where x: "x = (p, s)" by force
  from Cons.prems x have ok: "stream_ok s" and rest: "list_all (\<lambda>(p, s). stream_ok s) xs"
    by simp_all
  from flushStream_total[OF ok, of type False] obtain evs s' where
    f: "flushStream s type False = Inr (evs, s')" and ok': "stream_ok s'"
    and evs: "list_all (\<lambda>e. etype e = type \<and> trackId e = pid (hd (sdata s))) evs"
    by blast
  from Cons.IH[OF rest] obtain evs2 xs' where
    r: "flushAll type xs = Inr (evs2, xs')" and oks: "list_all (\<lambda>(p, s). stream_ok s) xs'"
    and ty: "list_all (\<lambda>e. etype e = type) evs2" by blast
  from evs have ty1: "list_all (\<lambda>e. etype e = type) evs" by (simp add: list_all_iff)
  have res: "flushAll type (x # xs) = Inr (evs @ evs2, (p, s') # xs')"
    by (simp add: x f r)
  show ?case unfolding res using ok' oks ty ty1 by simp
qed

text \<open>What one accumulator gives on a flush without \<^verbatim>\<open>forceFlush\<close>.\<close>

lemma flushStream_complete:
  assumes "stream_ok s"
  shows "flushStream s type False = Inr (pending_events type s, after_flush type s)"
proof (cases "sdata s = [] \<or> ssize s < 9")
  case True
  then show ?thesis
    by (auto simp: flushStream_def pending_events_def after_flush_def complete_unit_def)
next
  case False
  then show ?thesis
    using reassemble_ok [OF assms]
    by (simp add: flushStream_def pending_events_def after_flush_def complete_unit_def
        pes_of_def Let_def)
qed

lemma flushAll_complete:
  assumes "list_all (\<lambda>(p, s). stream_ok s) xs"
  shows "flushAll type xs =
     Inr (concat (map (\<lambda>(p, s). pending_events type s) xs),
          map (\<lambda>(p, s). (p, after_flush type s)) xs)"
  using assms
proof (induction xs)
  case Nil
  then show ?case by simp
next
  case (Cons x xs)
  obtain p s where x: "x = (p, s)" by force
  from Cons.prems x have ok: "stream_ok s" and rest: "list_all (\<lambda>(p, s). stream_ok s) xs"
    by simp_all
  show ?case
    by (simp add: x flushStream_complete [OF ok] Cons.IH [OF rest])
qed

text \<open>
  Claim C8, as amended. \<^verbatim>\<open>flush()\<close> of the ElementaryStream triggers \<^verbatim>\<open>done\<close> and
  nothing else, and leaves every accumulator as it is. The accumulators are flushed by
  \<^verbatim>\<open>flushStreams_\<close>. On every state that satisfies the invariant of the stream
  object, \<^verbatim>\<open>flushStreams_\<close> returns (it does not throw); it triggers exactly one PES
  event for every accumulator that holds a complete unit and no other event, the event
  of the video accumulator first, then those of the audio accumulators in ascending
  order of their PID, then those of the subtitle (private data) accumulators, then the
  event of the timed-metadata accumulator; it empties the accumulators that held a
  complete unit and leaves the others as they are.
\<close>

theorem C8_flush_order:
  assumes "es_ok st"
  shows "elementary_flush st = ([ElementaryDone], st) \<and>
         (\<exists>evs st'. flushStreams st = Inr (map PesData evs, st') \<and> es_ok st' \<and>
            evs = pending_events VIDEO (video st) @
                  concat (map (\<lambda>(p, s). pending_events AUDIO s) (audio st)) @
                  concat (map (\<lambda>(p, s). pending_events SUBTITLES s) (subtitles st)) @
                  pending_events TIMED_METADATA (timedMetadata st) \<and>
            st' = st\<lparr> video := after_flush VIDEO (video st),
                       audio := map (\<lambda>(p, s). (p, after_flush AUDIO s)) (audio st),
                       subtitles := map (\<lambda>(p, s). (p, after_flush SUBTITLES s)) (subtitles st),
                       timedMetadata := after_flush TIMED_METADATA (timedMetadata st) \<rparr> \<and>
            sorted (map (\<lambda>e. type_rank (etype e)) evs) \<and>
            sorted_wrt (<) (map trackId (filter (\<lambda>e. etype e = AUDIO) evs)))"
proof -
  from assms have v: "stream_ok (video st)" and t: "stream_ok (timedMetadata st)"
    and a: "list_all (\<lambda>(p, s). stream_ok s \<and> list_all (\<lambda>f. pid f = p) (sdata s)) (audio st)"
    and srt: "sorted_wrt (<) (map fst (audio st))"
    and su: "list_all (\<lambda>(p, s). stream_ok s) (subtitles st)"
    by (simp_all add: es_ok_def)
  from a have a0: "list_all (\<lambda>(p, s). stream_ok s) (audio st)"
    by (auto simp: list_all_iff)
  from flushStream_total[OF v, of VIDEO False] obtain ev v' where
    fv: "flushStream (video st) VIDEO False = Inr (ev, v')" and v': "stream_ok v'"
    and tv: "list_all (\<lambda>e. etype e = VIDEO \<and> trackId e = pid (hd (sdata (video st)))) ev"
    by blast
  from flushAll_total[OF a srt, of AUDIO] obtain ea a' where
    fa: "flushAll AUDIO (audio st) = Inr (ea, a')" and ka: "map fst a' = map fst (audio st)"
    and a': "list_all (\<lambda>(p, s). stream_ok s \<and> list_all (\<lambda>f. pid f = p) (sdata s)) a'"
    and ta: "list_all (\<lambda>e. etype e = AUDIO) ea"
    and sa: "sorted_wrt (<) (map trackId ea)" by blast
  from flushAll_subtitles[OF su, of SUBTITLES] obtain es su' where
    fs: "flushAll SUBTITLES (subtitles st) = Inr (es, su')"
    and su': "list_all (\<lambda>(p, s). stream_ok s) su'"
    and ts: "list_all (\<lambda>e. etype e = SUBTITLES) es" by blast
  from flushStream_total[OF t, of TIMED_METADATA False] obtain et t' where
    ft: "flushStream (timedMetadata st) TIMED_METADATA False = Inr (et, t')"
    and t': "stream_ok t'"
    and tt: "list_all (\<lambda>e. etype e = TIMED_METADATA \<and>
               trackId e = pid (hd (sdata (timedMetadata st)))) et"
    by blast
  from fv flushStream_complete [OF v, of VIDEO]
  have ev: "ev = pending_events VIDEO (video st)" and v'e: "v' = after_flush VIDEO (video st)"
    by simp_all
  from fa flushAll_complete [OF a0, of AUDIO]
  have ea: "ea = concat (map (\<lambda>(p, s). pending_events AUDIO s) (audio st))"
    and a'e: "a' = map (\<lambda>(p, s). (p, after_flush AUDIO s)) (audio st)"
    by simp_all
  from fs flushAll_complete [OF su, of SUBTITLES]
  have es: "es = concat (map (\<lambda>(p, s). pending_events SUBTITLES s) (subtitles st))"
    and su'e: "su' = map (\<lambda>(p, s). (p, after_flush SUBTITLES s)) (subtitles st)"
    by simp_all
  from ft flushStream_complete [OF t, of TIMED_METADATA]
  have et: "et = pending_events TIMED_METADATA (timedMetadata st)"
    and t'e: "t' = after_flush TIMED_METADATA (timedMetadata st)"
    by simp_all
  from tv have tv1: "list_all (\<lambda>e. etype e = VIDEO) ev" by (simp add: list_all_iff)
  from tt have tt1: "list_all (\<lambda>e. etype e = TIMED_METADATA) et" by (simp add: list_all_iff)
  let ?st' = "st\<lparr> video := v', audio := a', subtitles := su', timedMetadata := t' \<rparr>"
  have res: "flushStreams st = Inr (map PesData (ev @ ea @ es @ et), ?st')"
    by (simp add: flushStreams_def fv fa fs ft)
  have ok': "es_ok ?st'" using v' t' a' su' ka srt by (simp add: es_ok_def)
  have s1: "sorted (map (\<lambda>e. type_rank (etype e)) (ev @ ea @ es @ et))"
    by (rule sorted_rank_append[OF tv1 ta ts tt1])
  have s2: "sorted_wrt (<) (map trackId (filter (\<lambda>e. etype e = AUDIO) (ev @ ea @ es @ et)))"
    unfolding filter_audio[OF tv1 ta ts tt1] by (rule sa)
  have e1: "ev @ ea @ es @ et = pending_events VIDEO (video st) @
                  concat (map (\<lambda>(p, s). pending_events AUDIO s) (audio st)) @
                  concat (map (\<lambda>(p, s). pending_events SUBTITLES s) (subtitles st)) @
                  pending_events TIMED_METADATA (timedMetadata st)"
    by (simp only: ev ea es et)
  have e2: "?st' = st\<lparr> video := after_flush VIDEO (video st),
                       audio := map (\<lambda>(p, s). (p, after_flush AUDIO s)) (audio st),
                       subtitles := map (\<lambda>(p, s). (p, after_flush SUBTITLES s)) (subtitles st),
                       timedMetadata := after_flush TIMED_METADATA (timedMetadata st) \<rparr>"
    by (simp only: v'e a'e su'e t'e)
  have "\<exists>evs st'. flushStreams st = Inr (map PesData evs, st') \<and> es_ok st' \<and>
            evs = pending_events VIDEO (video st) @
                  concat (map (\<lambda>(p, s). pending_events AUDIO s) (audio st)) @
                  concat (map (\<lambda>(p, s). pending_events SUBTITLES s) (subtitles st)) @
                  pending_events TIMED_METADATA (timedMetadata st) \<and>
            st' = st\<lparr> video := after_flush VIDEO (video st),
                       audio := map (\<lambda>(p, s). (p, after_flush AUDIO s)) (audio st),
                       subtitles := map (\<lambda>(p, s). (p, after_flush SUBTITLES s)) (subtitles st),
                       timedMetadata := after_flush TIMED_METADATA (timedMetadata st) \<rparr> \<and>
            sorted (map (\<lambda>e. type_rank (etype e)) evs) \<and>
            sorted_wrt (<) (map trackId (filter (\<lambda>e. etype e = AUDIO) evs))"
    by (rule exI[of _ "ev @ ea @ es @ et"], rule exI[of _ ?st']) (intro conjI res ok' e1 e2 s1 s2)
  then show ?thesis
    by (simp add: elementary_flush_def)
qed

text \<open>
  The theorem at the example: the object is reached from the constructor by pushing the
  video PES, the audio PES of PID 258, the audio PES of PID 257 and the timed-metadata
  PES, which triggers nothing; \<^verbatim>\<open>flushStreams_\<close> then triggers four events, video,
  audio of PID 257, audio of PID 258, timed metadata, and leaves every accumulator
  empty.
\<close>

lemma example_complete:
  "pending_events VIDEO \<lparr> sdata = [example_pes 256 VIDEO_H264], ssize = 11 \<rparr> =
     [example_payload VIDEO 256]"
  "pending_events AUDIO \<lparr> sdata = [example_pes 257 AUDIO_ADTS], ssize = 11 \<rparr> =
     [example_payload AUDIO 257]"
  "pending_events AUDIO \<lparr> sdata = [example_pes 258 AUDIO_ADTS], ssize = 11 \<rparr> =
     [example_payload AUDIO 258]"
  "pending_events TIMED_METADATA \<lparr> sdata = [example_pes 259 METADATA], ssize = 11 \<rparr> =
     [example_payload TIMED_METADATA 259]"
  by (simp_all add: pending_events_def complete_unit_def pes_of_def example_pes_def
      example_payload_def parsePes_def startPrefix_def byteAt_def int32_def new_event_def
      subarray_from_def Let_def)

lemma example_emptied:
  "after_flush VIDEO \<lparr> sdata = [example_pes 256 VIDEO_H264], ssize = 11 \<rparr> = defaultStream"
  "after_flush AUDIO \<lparr> sdata = [example_pes 257 AUDIO_ADTS], ssize = 11 \<rparr> = defaultStream"
  "after_flush AUDIO \<lparr> sdata = [example_pes 258 AUDIO_ADTS], ssize = 11 \<rparr> = defaultStream"
  "after_flush TIMED_METADATA \<lparr> sdata = [example_pes 259 METADATA], ssize = 11 \<rparr> =
     defaultStream"
  by (simp_all add: after_flush_def complete_unit_def pes_of_def example_pes_def
      parsePes_def startPrefix_def byteAt_def int32_def new_event_def
      subarray_from_def Let_def defaultStream_def)

lemma example_es_reached:
  "elementary_pushes elementary_stream_init
     [Pes (example_pes 256 VIDEO_H264), Pes (example_pes 258 AUDIO_ADTS),
      Pes (example_pes 257 AUDIO_ADTS), Pes (example_pes 259 METADATA)] =
   Inr ([], example_es)"
  by (simp add: elementary_push_def select_stream_def get_stream_def put_stream_def
      elementary_stream_init_def defaultStream_def flushStream_def example_pes_def
      example_es_def VIDEO_H264_def AUDIO_ADTS_def METADATA_def)

theorem C8_flush_order_witness:
  "es_ok example_es \<and>
   elementary_pushes elementary_stream_init
     [Pes (example_pes 256 VIDEO_H264), Pes (example_pes 258 AUDIO_ADTS),
      Pes (example_pes 257 AUDIO_ADTS), Pes (example_pes 259 METADATA)] =
     Inr ([], example_es) \<and>
   elementary_flush example_es = ([ElementaryDone], example_es) \<and>
   flushStreams example_es =
     Inr ([PesData (example_payload VIDEO 256), PesData (example_payload AUDIO 257),
           PesData (example_payload AUDIO 258), PesData (example_payload TIMED_METADATA 259)],
          \<lparr> video = defaultStream, audio = [(257, defaultStream), (258, defaultStream)],
            subtitles = [], timedMetadata = defaultStream, es_programMapTable = None \<rparr>)"
proof -
  have ok: "es_ok example_es"
    by (simp add: es_ok_def stream_ok_def example_es_def example_pes_def)
  from C8_flush_order [OF ok] obtain evs st' where
    fl: "elementary_flush example_es = ([ElementaryDone], example_es)"
    and fs: "flushStreams example_es = Inr (map PesData evs, st')"
    and evs: "evs = pending_events VIDEO (video example_es) @
                  concat (map (\<lambda>(p, s). pending_events AUDIO s) (audio example_es)) @
                  concat (map (\<lambda>(p, s). pending_events SUBTITLES s) (subtitles example_es)) @
                  pending_events TIMED_METADATA (timedMetadata example_es)"
    and st': "st' = example_es\<lparr> video := after_flush VIDEO (video example_es),
                       audio := map (\<lambda>(p, s). (p, after_flush AUDIO s)) (audio example_es),
                       subtitles := map (\<lambda>(p, s). (p, after_flush SUBTITLES s))
                                      (subtitles example_es),
                       timedMetadata := after_flush TIMED_METADATA (timedMetadata example_es) \<rparr>"
    by blast
  have evs': "evs = [example_payload VIDEO 256, example_payload AUDIO 257,
                     example_payload AUDIO 258, example_payload TIMED_METADATA 259]"
    unfolding evs by (simp add: example_es_def example_complete)
  have st'': "st' = \<lparr> video = defaultStream, audio = [(257, defaultStream), (258, defaultStream)],
            subtitles = [], timedMetadata = defaultStream, es_programMapTable = None \<rparr>"
    unfolding st' by (simp add: example_es_def example_emptied)
  from fs have "flushStreams example_es =
     Inr ([PesData (example_payload VIDEO 256), PesData (example_payload AUDIO 257),
           PesData (example_payload AUDIO 258), PesData (example_payload TIMED_METADATA 259)],
          \<lparr> video = defaultStream, audio = [(257, defaultStream), (258, defaultStream)],
            subtitles = [], timedMetadata = defaultStream, es_programMapTable = None \<rparr>)"
    unfolding evs' st'' by simp
  with ok fl example_es_reached show ?thesis by simp
qed

text \<open>
  The claim as stated fails: after a complete video PES has been pushed, \<^verbatim>\<open>flush()\<close>
  triggers \<^verbatim>\<open>done\<close> alone and the PES stays in the accumulator, although
  \<^verbatim>\<open>flushStreams_\<close> would have emitted it.
\<close>

theorem C8_flush_emits_nothing_counterexample:
  "elementary_push elementary_stream_init
     (Pes \<lparr> payloadUnitStartIndicator = True, pid = 256, streamType = Some VIDEO_H264,
            fdata = [0, 0, 1, 0xE0, 0, 0, 0x80, 0, 0, 0xAA, 0xBB] \<rparr>) =
     Inr ([], \<lparr> video = \<lparr> sdata = [\<lparr> payloadUnitStartIndicator = True, pid = 256,
                                   streamType = Some VIDEO_H264,
                                   fdata = [0, 0, 1, 0xE0, 0, 0, 0x80, 0, 0, 0xAA, 0xBB] \<rparr>],
                       ssize = 11 \<rparr>,
           audio = [], subtitles = [], timedMetadata = defaultStream,
           es_programMapTable = None \<rparr>) \<and>
   elementary_flush \<lparr> video = \<lparr> sdata = [\<lparr> payloadUnitStartIndicator = True, pid = 256,
                                   streamType = Some VIDEO_H264,
                                   fdata = [0, 0, 1, 0xE0, 0, 0, 0x80, 0, 0, 0xAA, 0xBB] \<rparr>],
                       ssize = 11 \<rparr>,
           audio = [], subtitles = [], timedMetadata = defaultStream,
           es_programMapTable = None \<rparr> =
     ([ElementaryDone],
      \<lparr> video = \<lparr> sdata = [\<lparr> payloadUnitStartIndicator = True, pid = 256,
                                   streamType = Some VIDEO_H264,
                                   fdata = [0, 0, 1, 0xE0, 0, 0, 0x80, 0, 0, 0xAA, 0xBB] \<rparr>],
                       ssize = 11 \<rparr>,
           audio = [], subtitles = [], timedMetadata = defaultStream,
           es_programMapTable = None \<rparr>) \<and>
   flushStreams \<lparr> video = \<lparr> sdata = [\<lparr> payloadUnitStartIndicator = True, pid = 256,
                                   streamType = Some VIDEO_H264,
                                   fdata = [0, 0, 1, 0xE0, 0, 0, 0x80, 0, 0, 0xAA, 0xBB] \<rparr>],
                       ssize = 11 \<rparr>,
           audio = [], subtitles = [], timedMetadata = defaultStream,
           es_programMapTable = None \<rparr> =
     Inr ([PesData \<lparr> etype = VIDEO, trackId = 256, edata = [0xAA, 0xBB],
                     packetLength = Some 6, dataAlignmentIndicator = Some False,
                     pts = None, dts = None \<rparr>],
          \<lparr> video = \<lparr> sdata = [], ssize = 0 \<rparr>,
            audio = [], subtitles = [], timedMetadata = defaultStream,
            es_programMapTable = None \<rparr>)"
  by (simp add: elementary_push_def select_stream_def get_stream_def put_stream_def
      elementary_stream_init_def defaultStream_def elementary_flush_def flushStreams_def
      flushStream_def parsePes_def startPrefix_def byteAt_def int32_def new_event_def
      subarray_from_def Let_def VIDEO_H264_def AUDIO_ADTS_def METADATA_def)

section \<open>ElementaryStream.push: the start of a new unit\<close>

text \<open>
  Where at least nine bytes are buffered, a fragment with \<^verbatim>\<open>payloadUnitStartIndicator\<close>
  empties the accumulator before it is buffered: the accumulator then holds this
  fragment alone.
\<close>

lemma flushStream_forced:
  assumes "stream_ok s" "sdata s \<noteq> []" "9 \<le> ssize s"
  shows "\<exists>evs. flushStream s t True = Inr (evs, s\<lparr> sdata := [], ssize := 0 \<rparr>)"
  using assms by (simp add: flushStream_def reassemble_ok Let_def)

lemma push_start_empties:
  assumes "es_ok st" "select_stream frag = Some (a, t)" "payloadUnitStartIndicator frag"
    and "sdata (get_stream st a) = [] \<or> 9 \<le> ssize (get_stream st a)"
  shows "\<exists>evs. elementary_push st (Pes frag) =
           Inr (evs, put_stream st a \<lparr> sdata = [frag], ssize = length (fdata frag) \<rparr>)"
proof -
  let ?g = "get_stream st a"
  have g: "stream_ok ?g" by (rule get_stream_ok(1)[OF assms(1)])
  have "\<exists>evs. flushStream ?g t True = Inr (evs, \<lparr> sdata = [], ssize = 0 \<rparr>)"
  proof (cases "sdata ?g = []")
    case True
    with g have "ssize ?g = 0" by (simp add: stream_ok_def)
    with True have "?g = \<lparr> sdata = [], ssize = 0 \<rparr>" by (cases ?g) simp
    then show ?thesis by (simp add: flushStream_def)
  next
    case False
    with assms(4) have big: "9 \<le> ssize ?g" by simp
    have "?g\<lparr> sdata := [], ssize := 0 \<rparr> = \<lparr> sdata = [], ssize = 0 \<rparr>" by (cases ?g) simp
    with flushStream_forced[OF g False big, of t] show ?thesis by simp
  qed
  then obtain fe where f: "flushStream ?g t True = Inr (fe, \<lparr> sdata = [], ssize = 0 \<rparr>)" ..
  show ?thesis
    by (simp add: elementary_push_def assms(2,3) f)
qed

text \<open>
  Claim C10 at a failing input. An audio fragment of five bytes that starts a unit is
  followed by a fragment that starts the next unit, a complete PES packet of nine bytes.
  The accumulator is not emptied: \<^verbatim>\<open>flushStream\<close> returns before the reset when fewer
  than nine bytes are buffered, also under \<^verbatim>\<open>forceFlush\<close>. The accumulator then holds
  both fragments, and the next start of a unit emits one event for the two glued
  together (an empty payload), while the complete packet is never emitted on its own.
\<close>

theorem C10_short_unit_is_kept:
  "elementary_push elementary_stream_init
     (Pes \<lparr> payloadUnitStartIndicator = True, pid = 257, streamType = Some AUDIO_ADTS,
            fdata = [0, 0, 1, 0xC0, 0] \<rparr>) =
     Inr ([], elementary_stream_init
            \<lparr> audio := [(257, \<lparr> sdata = [\<lparr> payloadUnitStartIndicator = True, pid = 257,
                                             streamType = Some AUDIO_ADTS,
                                             fdata = [0, 0, 1, 0xC0, 0] \<rparr>],
                                  ssize = 5 \<rparr>)] \<rparr>) \<and>
   elementary_push
     (elementary_stream_init
        \<lparr> audio := [(257, \<lparr> sdata = [\<lparr> payloadUnitStartIndicator = True, pid = 257,
                                         streamType = Some AUDIO_ADTS,
                                         fdata = [0, 0, 1, 0xC0, 0] \<rparr>],
                              ssize = 5 \<rparr>)] \<rparr>)
     (Pes \<lparr> payloadUnitStartIndicator = True, pid = 257, streamType = Some AUDIO_ADTS,
            fdata = [0, 0, 1, 0xC0, 0, 3, 0x80, 0, 0] \<rparr>) =
     Inr ([], elementary_stream_init
            \<lparr> audio := [(257, \<lparr> sdata = [\<lparr> payloadUnitStartIndicator = True, pid = 257,
                                             streamType = Some AUDIO_ADTS,
                                             fdata = [0, 0, 1, 0xC0, 0] \<rparr>,
                                           \<lparr> payloadUnitStartIndicator = True, pid = 257,
                                             streamType = Some AUDIO_ADTS,
                                             fdata = [0, 0, 1, 0xC0, 0, 3, 0x80, 0, 0] \<rparr>],
                                  ssize = 14 \<rparr>)] \<rparr>) \<and>
   elementary_push
     (elementary_stream_init
        \<lparr> audio := [(257, \<lparr> sdata = [\<lparr> payloadUnitStartIndicator = True, pid = 257,
                                         streamType = Some AUDIO_ADTS,
                                         fdata = [0, 0, 1, 0xC0, 0] \<rparr>,
                                       \<lparr> payloadUnitStartIndicator = True, pid = 257,
                                         streamType = Some AUDIO_ADTS,
                                         fdata = [0, 0, 1, 0xC0, 0, 3, 0x80, 0, 0] \<rparr>],
                              ssize = 14 \<rparr>)] \<rparr>)
     (Pes \<lparr> payloadUnitStartIndicator = True, pid = 257, streamType = Some AUDIO_ADTS,
            fdata = [0, 0, 1, 0xC0, 0, 3, 0x80, 0, 0] \<rparr>) =
     Inr ([PesData \<lparr> etype = AUDIO, trackId = 257, edata = [], packetLength = Some 6,
                     dataAlignmentIndicator = Some False, pts = None, dts = None \<rparr>],
          elementary_stream_init
            \<lparr> audio := [(257, \<lparr> sdata = [\<lparr> payloadUnitStartIndicator = True, pid = 257,
                                             streamType = Some AUDIO_ADTS,
                                             fdata = [0, 0, 1, 0xC0, 0, 3, 0x80, 0, 0] \<rparr>],
                                  ssize = 9 \<rparr>)] \<rparr>)"
  by (simp add: elementary_push_def select_stream_def get_stream_def put_stream_def
      elementary_stream_init_def defaultStream_def
      flushStream_def parsePes_def startPrefix_def byteAt_def int32_def new_event_def
      subarray_from_def Let_def VIDEO_H264_def AUDIO_ADTS_def METADATA_def)

section \<open>CoalesceStream: the remux barrier\<close>

text \<open>
  Claim C4, as amended. While remux is on and fewer distinct track PIDs are buffered
  than track ids are registered, \<^verbatim>\<open>flush()\<close> triggers nothing and changes nothing,
  whatever its source. Once as many are buffered, a flush with buffered track data
  throws when no selected audio track and no video track is buffered or no kept bytes
  are; otherwise it triggers exactly one \<^verbatim>\<open>data\<close> event, first, whose init segment is
  built from the selected audio track and the video track (those that are buffered, in
  this order) and whose data are the boxes of the video entries and of the entries of
  the selected audio PID, concatenated in the order in which they were pushed; the
  buffer is empty afterwards.
\<close>

theorem C4_remux_barrier:
  fixes ext :: "'t co_externals"
  assumes "remuxTracks st"
  shows "(card (bufferedTrackIds st) < card (trackIds st) \<longrightarrow>
            coalesce_flush ext st src = Inr ([], st)) \<and>
         (\<not> card (bufferedTrackIds st) < card (trackIds st) \<longrightarrow> trackData st \<noteq> [] \<longrightarrow>
            (if init_tracks st = [] \<or> concat (map snd (filter (keeps st) (trackData st))) = []
             then coalesce_flush ext st src = Inl Error
             else (\<exists>seg rest st'.
                     coalesce_flush ext st src = Inr (Data seg # rest, st') \<and>
                     list_all (\<lambda>e. \<not> is_data e) rest \<and>
                     seg_initSegment seg = initSegment ext (init_tracks st) \<and>
                     seg_data seg = concat (map snd (filter (keeps st) (trackData st))) \<and>
                     trackData st' = [] \<and> bufferedTrackIds st' = {})))"
proof (intro conjI impI)
  assume "card (bufferedTrackIds st) < card (trackIds st)"
  with assms show "coalesce_flush ext st src = Inr ([], st)"
    by (simp add: coalesce_flush_def)
next
  assume full: "\<not> card (bufferedTrackIds st) < card (trackIds st)" and td: "trackData st \<noteq> []"
  let ?kept = "filter (keeps st) (trackData st)"
  have bytes: "sum_list (map (\<lambda>entry. length (snd entry)) ?kept) = length (concat (map snd ?kept))"
    by (simp add: length_concat comp_def)
  show "if init_tracks st = [] \<or> concat (map snd ?kept) = []
        then coalesce_flush ext st src = Inl Error
        else (\<exists>seg rest st'.
                coalesce_flush ext st src = Inr (Data seg # rest, st') \<and>
                list_all (\<lambda>e. \<not> is_data e) rest \<and>
                seg_initSegment seg = initSegment ext (init_tracks st) \<and>
                seg_data seg = concat (map snd ?kept) \<and>
                trackData st' = [] \<and> bufferedTrackIds st' = {})"
  proof (cases "init_tracks st = [] \<or> concat (map snd ?kept) = []")
    case True
    then have "groupSendTracks ext st = Inl Error"
      unfolding groupSendTracks_def Let_def bytes by auto
    with True full td show ?thesis by (simp add: coalesce_flush_def Let_def)
  next
    case False
    then obtain seg st1 where g: "groupSendTracks ext st = Inr (seg, st1)"
      and i: "seg_initSegment seg = initSegment ext (init_tracks st)"
      and d: "seg_data seg = concat (map snd ?kept)"
      unfolding groupSendTracks_def Let_def bytes by auto
    obtain dn st3 where e: "emit_done (st1\<lparr> trackData := [], bufferedTrackIds := {},
        videoTrack := None, audioTracksByPid := [], pendingCaptions := [],
        pendingMetadata := [] \<rparr>) = (dn :: 't co_event list, st3)" by force
    have nd: "list_all (\<lambda>e. \<not> is_data e) dn"
      using e by (auto simp: emit_done_def split: if_splits)
    have st3: "trackData st3 = [] \<and> bufferedTrackIds st3 = {}"
      using e by (auto simp: emit_done_def split: if_splits)
    let ?ts = "case videoTrack st of
                 Some v \<Rightarrow> tr_timelineStartPts v
               | None \<Rightarrow> (case map snd (audioTracksByPid st) of
                            a # _ \<Rightarrow> tr_timelineStartPts a
                          | [] \<Rightarrow> Some 0)"
    let ?caps = "map (\<lambda>c. CaptionEvent c
                     (metadataTsToSeconds ext (cap_startPts c) ?ts (keepOriginalTimestamps st))
                     (metadataTsToSeconds ext (cap_endPts c) ?ts (keepOriginalTimestamps st)))
                   (pendingCaptions st)"
    let ?tags = "map (\<lambda>m. Id3Frame m
                     (metadataTsToSeconds ext (id3_pts m) ?ts (keepOriginalTimestamps st)))
                   (pendingMetadata st)"
    have fl: "coalesce_flush ext st src = Inr (Data seg # ?caps @ ?tags @ dn, st3)"
      using full td by (simp add: coalesce_flush_def Let_def g e)
    have rest: "list_all (\<lambda>e. \<not> is_data e) (?caps @ ?tags @ dn)"
      using nd by (auto simp: list_all_iff)
    have "\<exists>seg rest st'.
                coalesce_flush ext st src = Inr (Data seg # rest, st') \<and>
                list_all (\<lambda>e. \<not> is_data e) rest \<and>
                seg_initSegment seg = initSegment ext (init_tracks st) \<and>
                seg_data seg = concat (map snd ?kept) \<and>
                trackData st' = [] \<and> bufferedTrackIds st' = {}"
      using fl rest i d st3 by blast
    with False show ?thesis by (simp only: if_False)
  qed
qed


text \<open>
  The two states of the example run, evaluated; they are the states after
  \<^verbatim>\<open>push({track, boxes})\<close> of the audio and of the video output.
\<close>

lemma example_run_pushed:
  "coalesce_push example_registered (TrackOut example_audio [1, 2]) = Inr example_audio_only"
  "coalesce_push example_audio_only (TrackOut example_video [3, 4]) = Inr example_both"
  by (simp_all add: coalesce_push_def example_audio_only_def example_both_def)

lemma example_audio_only_eq:
  "example_audio_only =
     \<lparr> remuxTracks = True, keepOriginalTimestamps = False,
       trackIds = {(''video'', 256), (''audio'', 257)}, videoTrack = None,
       audioTracksByPid = [(257, example_audio)], pendingCaptions = [], pendingMetadata = [],
       emittedTracks = 0, trackData = [(example_audio, [1, 2])], bufferedTrackIds = {257},
       currentAudioPid = Some 257 \<rparr>"
  by (auto simp: example_audio_only_def example_registered_def buffer_track_def addTrack_def
      coalesce_init_def example_audio_def Let_def)

lemma example_both_eq:
  "example_both =
     \<lparr> remuxTracks = True, keepOriginalTimestamps = False,
       trackIds = {(''video'', 256), (''audio'', 257)}, videoTrack = Some example_video,
       audioTracksByPid = [(257, example_audio)], pendingCaptions = [], pendingMetadata = [],
       emittedTracks = 0,
       trackData = [(example_audio, [1, 2]), (example_video, [3, 4])],
       bufferedTrackIds = {256, 257}, currentAudioPid = Some 257 \<rparr>"
  by (auto simp: example_both_def example_audio_only_eq buffer_track_def
      example_video_def example_audio_def Let_def)

text \<open>
  The theorem in the example run: nothing is emitted while only the audio boxes are
  buffered, one segment once the video boxes have arrived.
\<close>

theorem C4_remux_barrier_witness:
  "remuxTracks example_audio_only \<and>
   card (bufferedTrackIds example_audio_only) < card (trackIds example_audio_only) \<and>
   coalesce_flush example_externals example_audio_only VideoSegmentStream =
     Inr ([], example_audio_only) \<and>
   remuxTracks example_both \<and>
   \<not> card (bufferedTrackIds example_both) < card (trackIds example_both) \<and>
   trackData example_both \<noteq> [] \<and>
   (\<exists>seg rest st'.
      coalesce_flush example_externals example_both AudioSegmentStream =
        Inr (Data seg # rest, st') \<and>
      list_all (\<lambda>e. \<not> is_data e) rest \<and>
      seg_initSegment seg = [257, 256] \<and> seg_data seg = [1, 2, 3, 4] \<and>
      trackData st' = [] \<and> bufferedTrackIds st' = {})"
proof -
  have r1: "remuxTracks example_audio_only" by (simp add: example_audio_only_eq)
  have c1: "card (bufferedTrackIds example_audio_only) < card (trackIds example_audio_only)"
    by (simp add: example_audio_only_eq)
  have r2: "remuxTracks example_both" by (simp add: example_both_eq)
  have c2: "\<not> card (bufferedTrackIds example_both) < card (trackIds example_both)"
    by (simp add: example_both_eq)
  have t2: "trackData example_both \<noteq> []" by (simp add: example_both_eq)
  have k: "filter (keeps example_both) (trackData example_both) =
      [(example_audio, [1, 2]), (example_video, [3, 4])]"
    by (simp add: example_both_eq keeps_def example_audio_def example_video_def)
  have i: "init_tracks example_both = [example_audio, example_video]"
    by (simp add: example_both_eq init_tracks_def selected_audio_def)
  have ini: "initSegment example_externals [example_audio, example_video] = [257, 256]"
    by (simp add: example_externals_def example_audio_def example_video_def)
  show ?thesis
    using C4_remux_barrier [OF r1, of example_externals VideoSegmentStream]
      C4_remux_barrier [OF r2, of example_externals AudioSegmentStream] r1 c1 r2 c2 t2
    unfolding k i ini by simp
qed

text \<open>
  The claim as stated fails: in the run above the audio boxes \<open>[1, 2]\<close> were pushed
  before the video boxes \<open>[3, 4]\<close>, and the segment holds them in that order, audio
  first.
\<close>

theorem C4_arrival_order_counterexample:
  "\<exists>st'. coalesce_flush example_externals example_both AudioSegmentStream =
     Inr ([Data \<lparr> seg_initSegment = [257, 256], seg_data = [1, 2, 3, 4],
                  seg_type = ''video'', seg_codec = [], seg_pid = Some 257 \<rparr>, Done], st')"
  by (simp add: coalesce_flush_def groupSendTracks_def emit_done_def example_both_eq keeps_def
      init_tracks_def selected_audio_def example_externals_def example_audio_def
      example_video_def join_codecs_def Let_def)

section \<open>VideoSegmentStream: a flush without a keyframe\<close>

lemma aud_not_idr: "is_aud n \<Longrightarrow> \<not> is_idr n"
  by (simp add: is_aud_def is_idr_def)

lemma scan_found: "scanKeyFrame ns j (Some i) = (Some i, list_ex is_idr ns)"
  by (induction ns arbitrary: j) (auto simp: is_idr_def)

lemma scan_prefix:
  "\<forall>n\<in>set P. \<not> is_aud n \<Longrightarrow> scanKeyFrame (P @ R) j None = scanKeyFrame R (j + length P) None"
  by (induction P arbitrary: j) (auto simp: is_aud_def)

lemma scan_no_aud: "\<forall>n\<in>set ns. \<not> is_aud n \<Longrightarrow> scanKeyFrame ns j None = (None, False)"
  using scan_prefix[of ns "[]" j] by simp

lemma scan_at_aud:
  "is_aud a \<Longrightarrow> scanKeyFrame (a # R) j None = (Some j, list_ex is_idr (a # R))"
  by (simp add: is_aud_def is_idr_def scan_found)

lemma scan_split:
  "scanKeyFrame ns 0 None =
     (if list_ex is_aud ns
      then (Some (length (takeWhile (\<lambda>n. \<not> is_aud n) ns)),
            list_ex is_idr (dropWhile (\<lambda>n. \<not> is_aud n) ns))
      else (None, False))"
proof (cases "list_ex is_aud ns")
  case False
  then show ?thesis by (simp add: scan_no_aud list_ex_iff)
next
  case True
  let ?P = "takeWhile (\<lambda>n. \<not> is_aud n) ns" and ?R = "dropWhile (\<lambda>n. \<not> is_aud n) ns"
  from True have "?R \<noteq> []" by (simp add: list_ex_iff)
  then obtain a R' where R: "?R = a # R'" by (cases ?R) auto
  then have a: "is_aud a" using hd_dropWhile[of "\<lambda>n. \<not> is_aud n" ns] by auto
  have P: "\<forall>n\<in>set ?P. \<not> is_aud n" by (auto dest: set_takeWhileD)
  have "scanKeyFrame ns 0 None = scanKeyFrame ?R (length ?P) None"
    using scan_prefix[OF P, of ?R 0] by simp
  also have "\<dots> = (Some (length ?P), list_ex is_idr ?R)"
    unfolding R by (rule scan_at_aud[OF a])
  finally show ?thesis using True by simp
qed

lemma retained_waiting:
  "waitForKeyFrame st \<Longrightarrow>
   retainedNals st = (if list_ex is_aud (nalUnits st)
                      then dropWhile (\<lambda>n. \<not> is_aud n) (nalUnits st) else nalUnits st)"
  by (simp add: retainedNals_def scan_split dropWhile_eq_drop)

lemma contains_key_frame:
  "containsKeyFrame st \<longleftrightarrow> list_ex is_idr (dropWhile (\<lambda>n. \<not> is_aud n) (nalUnits st))"
proof (cases "list_ex is_aud (nalUnits st)")
  case True
  then show ?thesis by (simp add: containsKeyFrame_def scan_split)
next
  case False
  then have e: "dropWhile (\<lambda>n. \<not> is_aud n) (nalUnits st) = []" by (simp add: list_ex_iff)
  show ?thesis unfolding containsKeyFrame_def scan_split e using False by simp
qed


lemma push_fields:
  "video_push ext (st\<lparr> nalUnits := ns \<rparr>) n = (video_push ext st n)\<lparr> nalUnits := ns @ [n] \<rparr>"
  by (simp add: video_push_def Let_def)

lemma pushes_fields:
  "video_pushes ext (st\<lparr> nalUnits := ns \<rparr>) later =
     (video_pushes ext st later)\<lparr> nalUnits := ns @ later \<rparr>"
  unfolding video_pushes_def
proof (induction later arbitrary: st ns)
  case Nil
  then show ?case by simp
next
  case (Cons n later)
  show ?case by (simp add: push_fields Cons.IH)
qed

lemma pushes_nalUnits: "nalUnits (video_pushes ext st later) = nalUnits st @ later"
  by (induction later arbitrary: st) (simp_all add: video_pushes_def video_push_def Let_def)

lemma pushes_waiting: "waitForKeyFrame (video_pushes ext st later) = waitForKeyFrame st"
  by (induction later arbitrary: st) (simp_all add: video_pushes_def video_push_def Let_def)

text \<open>
  A flush reads the buffered NAL units through \<open>retainedNals\<close> and \<open>containsKeyFrame\<close>
  alone.
\<close>

lemma flush_depends:
  assumes "retainedNals (s\<lparr> nalUnits := xs \<rparr>) = retainedNals (s\<lparr> nalUnits := ys \<rparr>)"
    and "containsKeyFrame (s\<lparr> nalUnits := xs \<rparr>) = containsKeyFrame (s\<lparr> nalUnits := ys \<rparr>)"
  shows "video_flush ext (s\<lparr> nalUnits := xs \<rparr>) = video_flush ext (s\<lparr> nalUnits := ys \<rparr>)"
proof -
  have seg: "segmentNals (s\<lparr> nalUnits := xs \<rparr>) = segmentNals (s\<lparr> nalUnits := ys \<rparr>)"
    using assms(1) by (simp add: segmentNals_def)
  show ?thesis
    unfolding video_flush_def seg assms by simp
qed


lemma dropWhile_append_found:
  "list_ex P xs \<Longrightarrow> dropWhile (\<lambda>n. \<not> P n) (xs @ ys) = dropWhile (\<lambda>n. \<not> P n) xs @ ys"
  by (induction xs) auto

text \<open>
  Claim C9. On every flush of the video segmenter while \<^verbatim>\<open>waitForKeyFrame\<close> is true,
  if the buffered NAL units hold no IDR slice behind the first access-unit delimiter,
  the flush returns (it does not throw) and triggers \<^verbatim>\<open>done\<close> and nothing else, no
  \<^verbatim>\<open>data\<close> event; \<^verbatim>\<open>waitForKeyFrame\<close> stays true, and the stream stays usable: after
  any further pushes the next flush does exactly what it would have done without this
  flush.
\<close>

theorem C9_no_keyframe_flush:
  assumes "waitForKeyFrame st"
    and "\<not> list_ex is_idr (dropWhile (\<lambda>n. \<not> is_aud n) (nalUnits st))"
  shows "\<exists>st'. video_flush ext st = Inr ([VideoDone], st') \<and> waitForKeyFrame st' \<and>
           (\<forall>later. video_flush ext (video_pushes ext st' later) =
                     video_flush ext (video_pushes ext st later))"
proof -
  let ?st' = "st\<lparr> nalUnits := retainedNals st \<rparr>"
  have fl: "video_flush ext st = Inr ([VideoDone], ?st')"
    using assms by (simp add: video_flush_def contains_key_frame)
  have w: "waitForKeyFrame ?st'" using assms(1) by simp
  have same: "video_flush ext (video_pushes ext ?st' later) =
              video_flush ext (video_pushes ext st later)" for later
  proof (cases "list_ex is_aud (nalUnits st)")
    case False
    then have e: "retainedNals st = nalUnits st" using assms(1) by (simp add: retained_waiting)
    show ?thesis unfolding e by simp
  next
    case True
    let ?R = "dropWhile (\<lambda>n. \<not> is_aud n) (nalUnits st)"
    let ?s = "video_pushes ext st later"
    have r: "retainedNals st = ?R" using assms(1) True by (simp add: retained_waiting)
    from True have "?R \<noteq> []" by (simp add: list_ex_iff)
    then have audR: "list_ex is_aud ?R"
      using hd_dropWhile[of "\<lambda>n. \<not> is_aud n" "nalUnits st"] by (cases ?R) auto
    have dR: "dropWhile (\<lambda>n. \<not> is_aud n) ?R = ?R"
      using \<open>?R \<noteq> []\<close> hd_dropWhile[of "\<lambda>n. \<not> is_aud n" "nalUnits st"] by (cases ?R) auto
    have ws: "waitForKeyFrame ?s" using assms(1) by (simp add: pushes_waiting)
    have a: "video_pushes ext ?st' later = ?s\<lparr> nalUnits := ?R @ later \<rparr>"
      by (simp add: pushes_fields r)
    have "?s\<lparr> nalUnits := nalUnits ?s \<rparr> = ?s" by simp
    then have b: "?s\<lparr> nalUnits := nalUnits st @ later \<rparr> = ?s"
      by (simp only: pushes_nalUnits)
    have d1: "dropWhile (\<lambda>n. \<not> is_aud n) (nalUnits st @ later) = ?R @ later"
      by (rule dropWhile_append_found[OF True])
    have d2: "dropWhile (\<lambda>n. \<not> is_aud n) (?R @ later) = ?R @ later"
      using dropWhile_append_found[OF audR, of later] dR by simp
    have ex1: "list_ex is_aud (?R @ later)" using audR by (auto simp: list_ex_iff)
    have ex2: "list_ex is_aud (nalUnits st @ later)" using True by (auto simp: list_ex_iff)
    have ret: "retainedNals (?s\<lparr> nalUnits := ?R @ later \<rparr>) =
               retainedNals (?s\<lparr> nalUnits := nalUnits st @ later \<rparr>)"
      using ws ex1 ex2 by (simp add: retained_waiting d1 d2)
    have con: "containsKeyFrame (?s\<lparr> nalUnits := ?R @ later \<rparr>) =
               containsKeyFrame (?s\<lparr> nalUnits := nalUnits st @ later \<rparr>)"
      by (simp add: contains_key_frame d1 d2)
    have "video_flush ext (?s\<lparr> nalUnits := ?R @ later \<rparr>) =
          video_flush ext (?s\<lparr> nalUnits := nalUnits st @ later \<rparr>)"
      by (rule flush_depends[OF ret con])
    then show ?thesis unfolding a b .
  qed
  show ?thesis by (intro exI[of _ ?st'] conjI allI fl w same)
qed


text \<open>
  The theorem at a stream that has buffered a slice, a delimiter and another slice, none
  of them an IDR slice.
\<close>

theorem C9_no_keyframe_flush_witness:
  "waitForKeyFrame (video_pushes plain_externals (video_init plain_track False False)
      [nalAt other_nal_unit_type 0, nalAt access_unit_delimiter_rbsp 1,
       nalAt other_nal_unit_type 2]) \<and>
   \<not> list_ex is_idr (dropWhile (\<lambda>n. \<not> is_aud n)
       (nalUnits (video_pushes plain_externals (video_init plain_track False False)
          [nalAt other_nal_unit_type 0, nalAt access_unit_delimiter_rbsp 1,
           nalAt other_nal_unit_type 2]))) \<and>
   (\<exists>st'. video_flush plain_externals
            (video_pushes plain_externals (video_init plain_track False False)
               [nalAt other_nal_unit_type 0, nalAt access_unit_delimiter_rbsp 1,
                nalAt other_nal_unit_type 2]) = Inr ([VideoDone], st') \<and>
          waitForKeyFrame st' \<and>
          (\<forall>later. video_flush plain_externals (video_pushes plain_externals st' later) =
                    video_flush plain_externals
                      (video_pushes plain_externals
                         (video_pushes plain_externals (video_init plain_track False False)
                            [nalAt other_nal_unit_type 0, nalAt access_unit_delimiter_rbsp 1,
                             nalAt other_nal_unit_type 2]) later)))"
proof -
  let ?st = "video_pushes plain_externals (video_init plain_track False False)
      [nalAt other_nal_unit_type 0, nalAt access_unit_delimiter_rbsp 1,
       nalAt other_nal_unit_type 2]"
  have w: "waitForKeyFrame ?st" by (simp add: pushes_waiting video_init_def)
  have n: "\<not> list_ex is_idr (dropWhile (\<lambda>n. \<not> is_aud n) (nalUnits ?st))"
    by (simp add: pushes_nalUnits video_init_def nalAt_def is_aud_def is_idr_def)
  show ?thesis
    using C9_no_keyframe_flush [OF w n, of plain_externals] w n by simp
qed

section \<open>VideoSegmentStream: the first frame of a segment\<close>

subsection \<open>Frames and GOPs\<close>

lemma startGroups_concat: "concat (startGroups P xs) = xs"
  by (induction xs) (auto split: list.splits)

lemma startGroups_nonempty: "g \<in> set (startGroups P xs) \<Longrightarrow> g \<noteq> []"
  by (induction xs arbitrary: g) (auto split: list.splits if_splits)

lemma startGroups_Nil: "startGroups P xs = [] \<longleftrightarrow> xs = []"
  by (cases xs) (auto split: list.splits)

lemma startGroups_tail_starts:
  "g \<in> set (tl (startGroups P xs)) \<Longrightarrow> P (hd g)"
  by (induction xs arbitrary: g) (auto split: list.splits if_splits)

lemma startGroups_inner:
  "g \<in> set (startGroups P xs) \<Longrightarrow> y \<in> set (tl g) \<Longrightarrow> \<not> P y"
proof (induction xs arbitrary: g y)
  case Nil
  then show ?case by simp
next
  case (Cons x xs)
  show ?case
  proof (cases "startGroups P xs")
    case Nil
    with Cons.prems show ?thesis by simp
  next
    case outer: (Cons h gs)
    show ?thesis
    proof (cases h)
      case Nil
      with outer Cons.prems Cons.IH [of g y] show ?thesis by auto
    next
      case inner: (Cons z zs)
      show ?thesis
      proof (cases "P z")
        case True
        with outer inner Cons.prems Cons.IH [of g y] show ?thesis by auto
      next
        case False
        from outer inner False have sg: "startGroups P (x # xs) = (x # h) # gs" by simp
        from Cons.prems(1) sg have "g = x # h \<or> g \<in> set gs" by simp
        then show ?thesis
        proof
          assume g: "g = x # h"
          with Cons.prems(2) have "y \<in> set h" by simp
          with inner have "y = z \<or> y \<in> set (tl h)" by auto
          then show ?thesis
          proof
            assume "y = z" with False show ?thesis by simp
          next
            assume "y \<in> set (tl h)"
            with Cons.IH [of h y] outer show ?thesis by simp
          qed
        next
          assume "g \<in> set gs"
          with Cons.IH [of g y] outer Cons.prems(2) show ?thesis by simp
        qed
      qed
    qed
  qed
qed


lemma framesOf_keyFrame: "map keyFrame (framesOf d gs) = map (list_ex is_idr) gs"
  by (induction d gs rule: framesOf.induct) (simp_all add: mkFrame_def Let_def)

lemma frames_keyFrame:
  "list_ex keyFrame (groupNalsIntoFrames ns) \<longleftrightarrow> list_ex is_idr ns"
proof -
  have "list_ex keyFrame (groupNalsIntoFrames ns) \<longleftrightarrow>
        True \<in> set (map keyFrame (groupNalsIntoFrames ns))"
    by (auto simp: list_ex_iff)
  also have "\<dots> \<longleftrightarrow> True \<in> set (map (list_ex is_idr) (nalGroups ns))"
    by (simp only: groupNalsIntoFrames_def framesOf_keyFrame)
  also have "\<dots> \<longleftrightarrow> list_ex is_idr (concat (nalGroups ns))"
    by (auto simp: list_ex_iff)
  also have "\<dots> \<longleftrightarrow> list_ex is_idr ns"
    by (simp add: nalGroups_def startGroups_concat)
  finally show ?thesis .
qed

lemma starts_mkGop: "gop_starts_with_keyframe (mkGop fs) \<longleftrightarrow> fs \<noteq> [] \<and> keyFrame (hd fs)"
  by (cases fs) (simp_all add: gop_starts_with_keyframe_def mkGop_def)

lemma gops_shape:
  assumes ex: "list_ex keyFrame fs"
  shows "keyed (gs_items (groupFramesIntoGops fs)) \<or>
         (\<exists>d n rest. gs_items (groupFramesIntoGops fs) = d # n # rest \<and>
            \<not> gop_starts_with_keyframe d \<and> keyed (n # rest))"
proof -
  let ?G = "startGroups keyFrame fs"
  have items: "gs_items (groupFramesIntoGops fs) = map mkGop ?G"
    by (simp add: groupFramesIntoGops_def mkGops_def frameGroups_def)
  from ex have "fs \<noteq> []" by auto
  then obtain h G where G: "?G = h # G"
    using startGroups_Nil [of keyFrame fs] by (cases ?G) auto
  have rest: "list_all gop_starts_with_keyframe (map mkGop G)"
  proof -
    have "\<And>g. g \<in> set G \<Longrightarrow> g \<noteq> [] \<and> keyFrame (hd g)"
      using startGroups_nonempty [of _ keyFrame fs] startGroups_tail_starts [of _ keyFrame fs] G
      by auto
    then show ?thesis by (simp add: list_all_iff starts_mkGop)
  qed
  have hne: "h \<noteq> []" using startGroups_nonempty [of h keyFrame fs] G by simp
  show ?thesis
  proof (cases "keyFrame (hd h)")
    case True
    with hne rest have "keyed (map mkGop ?G)"
      by (simp add: G keyed_def starts_mkGop)
    with items show ?thesis by simp
  next
    case False
    have nokey: "\<not> list_ex keyFrame h"
    proof
      assume "list_ex keyFrame h"
      then obtain y where y: "y \<in> set h" "keyFrame y" by (auto simp: list_ex_iff)
      from hne y(1) have "y = hd h \<or> y \<in> set (tl h)" by (cases h) auto
      then show False
      proof
        assume "y = hd h" with False y(2) show False by simp
      next
        assume "y \<in> set (tl h)"
        with startGroups_inner [of h keyFrame fs y] G y(2) show False by simp
      qed
    qed
    have "concat ?G = fs" by (rule startGroups_concat)
    with G have "fs = h @ concat G" by simp
    with ex nokey have "list_ex keyFrame (concat G)" by (auto simp: list_ex_iff)
    then have "G \<noteq> []" by auto
    then obtain n G' where G': "G = n # G'" by (cases G) auto
    from False hne have "\<not> gop_starts_with_keyframe (mkGop h)" by (simp add: starts_mkGop)
    moreover from rest G' have "keyed (mkGop n # map mkGop G')" by (simp add: keyed_def)
    moreover from items G G' have "gs_items (groupFramesIntoGops fs) =
        mkGop h # mkGop n # map mkGop G'" by simp
    ultimately show ?thesis by blast
  qed
qed

lemma extend_keyed:
  assumes "keyed (gs_items gs) \<or>
         (\<exists>d n rest. gs_items gs = d # n # rest \<and>
            \<not> gop_starts_with_keyframe d \<and> keyed (n # rest))"
  shows "keyed (gs_items (extendFirstKeyFrame gs))"
  using assms
proof
  assume k: "keyed (gs_items gs)"
  then have "extendFirstKeyFrame gs = gs"
    by (auto simp: extendFirstKeyFrame_def keyed_def split: list.splits)
  with k show ?thesis by simp
next
  assume "\<exists>d n rest. gs_items gs = d # n # rest \<and>
            \<not> gop_starts_with_keyframe d \<and> keyed (n # rest)"
  then obtain d n rest where it: "gs_items gs = d # n # rest"
    and nd: "\<not> gop_starts_with_keyframe d" and k: "keyed (n # rest)" by blast
  from k obtain f fs where n: "g_frames n = f # fs" and kf: "keyFrame f"
    by (auto simp: keyed_def gop_starts_with_keyframe_def split: list.splits)
  from it nd n have "gs_items (extendFirstKeyFrame gs) =
     n\<lparr> g_frames := f\<lparr> f_dts := g_dts d, f_pts := g_pts d,
                        f_duration := f_duration f + g_duration d \<rparr> # fs \<rparr> # rest"
    by (simp add: extendFirstKeyFrame_def)
  with k kf show ?thesis by (simp add: keyed_def gop_starts_with_keyframe_def)
qed

lemma keyed_drop: "keyed gl \<Longrightarrow> k < length gl \<Longrightarrow> keyed (drop k gl)"
  unfolding keyed_def list_all_iff using set_drop_subset [of k gl] by auto

lemma alignStartLoop_le: "alignStartLoop as gl k \<le> k + length gl"
  by (induction as gl k rule: alignStartLoop.induct) auto

lemma alignStart_keyed:
  assumes "alignGopsAtStart as gs = Some gs1" and "keyed (gs_items gs)"
  shows "keyed (gs_items gs1)"
proof -
  let ?k = "alignStartLoop as (gs_items gs) 0"
  have le: "?k \<le> length (gs_items gs)" using alignStartLoop_le [of as "gs_items gs" 0] by simp
  show ?thesis
  proof (cases "?k = 0")
    case True
    with assms show ?thesis by (simp add: alignGopsAtStart_def)
  next
    case False
    with assms(1) have ne: "?k \<noteq> length (gs_items gs)"
      and it: "gs_items gs1 = drop ?k (gs_items gs)"
      by (auto simp: alignGopsAtStart_def Let_def split: if_splits)
    from le ne have "?k < length (gs_items gs)" by simp
    with assms(2) it show ?thesis by (simp add: keyed_drop)
  qed
qed

declare alignEndLoop.simps [simp del]

lemma alignEndLoop_lt:
  "alignEndLoop as gl a g e = Some t \<Longrightarrow> g \<le> length gl \<Longrightarrow>
   (\<And>i. e = Some i \<Longrightarrow> i < length gl) \<Longrightarrow> t < length gl"
proof (induction as gl a g e rule: alignEndLoop.induct)
  case (1 as gl a g e)
  show ?case
  proof (cases "a > 0 \<and> g > 0")
    case False
    with "1.prems"(1) have "e = Some t" by (simp add: alignEndLoop.simps [of as gl a g e])
    with "1.prems"(3) show ?thesis by simp
  next
    case pos: True
    show ?thesis
    proof (cases "as ! (a - 1) = g_pts (gl ! (g - 1))")
      case True
      with pos "1.prems"(1) have "t = g - 1" by (simp add: alignEndLoop.simps [of as gl a g e])
      with pos "1.prems"(2) show ?thesis by auto
    next
      case ne: False
      show ?thesis
      proof (cases "as ! (a - 1) > g_pts (gl ! (g - 1))")
        case True
        with pos ne "1.prems"(1) have "alignEndLoop as gl (a - 1) g e = Some t"
          by (simp add: alignEndLoop.simps [of as gl a g e])
        from "1.IH"(1) [OF pos ne True this "1.prems"(2) "1.prems"(3)] show ?thesis by simp
      next
        case False
        let ?e = "if a - 1 = length as - 1 then Some (g - 1) else e"
        from pos ne False "1.prems"(1) have r: "alignEndLoop as gl a (g - 1) ?e = Some t"
          by (simp add: alignEndLoop.simps [of as gl a g e])
        have g: "g - 1 \<le> length gl" using "1.prems"(2) by simp
        have e: "\<And>i. ?e = Some i \<Longrightarrow> i < length gl"
          using "1.prems"(2,3) pos by (auto split: if_splits)
        from "1.IH"(2) [OF pos ne False r g e] show ?thesis by simp
      qed
    qed
  qed
qed

lemma alignEnd_keyed:
  assumes "alignGopsAtEnd_fn as gs = Some gs1" and "keyed (gs_items gs)"
  shows "keyed (gs_items gs1)"
proof -
  from assms(1) obtain t where
    t: "alignEndLoop as (gs_items gs) (length as) (length (gs_items gs)) None = Some t"
    by (auto simp: alignGopsAtEnd_fn_def split: option.splits)
  from alignEndLoop_lt [OF t] have lt: "t < length (gs_items gs)" by simp
  show ?thesis
  proof (cases "t = 0")
    case True
    with assms t show ?thesis by (simp add: alignGopsAtEnd_fn_def)
  next
    case False
    with assms(1) t have "gs_items gs1 = drop t (gs_items gs)"
      by (auto simp: alignGopsAtEnd_fn_def Let_def)
    with assms(2) lt show ?thesis by (simp add: keyed_drop)
  qed
qed

lemma emitSegment_keyed:
  assumes e: "emitSegment ext st lastIndex gs prepended = Inr (evs, st')"
    and m: "gsd \<in> set (video_segments evs)"
    and k: "keyed (gs_items gs)"
  shows "keyed (gs_items gsd)"
proof -
  let ?al = "if gopsToAlignWith st \<noteq> []
             then (if alignGopsAtEnd st then alignGopsAtEnd_fn (gopsToAlignWith st) gs
                   else alignGopsAtStart (gopsToAlignWith st) gs)
             else Some gs"
  show ?thesis
  proof (cases ?al)
    case None
    with e have "evs = [VideoDone]" by (simp add: emitSegment_def Let_def)
    with m show ?thesis by simp
  next
    case (Some gs1)
    have k1: "keyed (gs_items gs1)"
      using Some k alignEnd_keyed [of "gopsToAlignWith st" gs gs1]
        alignStart_keyed [of "gopsToAlignWith st" gs gs1]
      by (auto split: if_splits)
    from e Some have "video_segments evs = [gs1]"
      by (auto simp: emitSegment_def Let_def split: list.splits)
    with m k1 show ?thesis by simp
  qed
qed

lemma keyed_firstFrame: "keyed (gs_items gs) \<Longrightarrow> \<exists>f. firstFrame gs = Some f \<and> keyFrame f"
  by (auto simp: keyed_def firstFrame_def gop_starts_with_keyframe_def split: list.splits)

lemma fusion_empty: "gopCache st = [] \<Longrightarrow> getGopForFusion st n = Inr None"
  by (simp add: getGopForFusion_def)

subsection \<open>The GOP cache while the segmenter waits for a keyframe\<close>

text \<open>
  The cache is filled only by a flush that also sets \<^verbatim>\<open>waitForKeyFrame\<close> to false, and
  \<^verbatim>\<open>reset\<close> empties it: while \<^verbatim>\<open>waitForKeyFrame\<close> is true the cache is empty, from
  the constructor on, so that GOP fusion never finds a candidate.
\<close>

lemma cache_empty_init: "gopCache (video_init t atEnd keep) = []"
  by (simp add: video_init_def)

lemma cache_empty_push:
  "waitForKeyFrame (video_push ext st n) = waitForKeyFrame st \<and>
   gopCache (video_push ext st n) = gopCache st"
  by (simp add: video_push_def Let_def)

lemma cache_empty_reset:
  "waitForKeyFrame (video_reset ext st) \<and> gopCache (video_reset ext st) = []"
  by (simp add: video_reset_def)

lemma emitSegment_stops_waiting:
  assumes "emitSegment ext st lastIndex gs prepended = Inr (evs, st')"
    and "\<not> waitForKeyFrame st"
  shows "\<not> waitForKeyFrame st'"
  using assms
  by (auto simp: emitSegment_def Let_def split: option.splits list.splits if_splits)

lemma cache_empty_flush:
  assumes fl: "video_flush ext st = Inr (evs, st')"
    and inv: "waitForKeyFrame st \<longrightarrow> gopCache st = []"
  shows "waitForKeyFrame st' \<longrightarrow> gopCache st' = []"
proof (cases "\<exists>li gs p. emitSegment ext (st\<lparr> nalUnits := retainedNals st, waitForKeyFrame := False \<rparr>)
                            li gs p = Inr (evs, st')")
  case True
  then obtain li gs p where
    "emitSegment ext (st\<lparr> nalUnits := retainedNals st, waitForKeyFrame := False \<rparr>) li gs p =
       Inr (evs, st')" by blast
  from emitSegment_stops_waiting [OF this] show ?thesis by simp
next
  case False
  with fl have "waitForKeyFrame st' = waitForKeyFrame st \<and> gopCache st' = gopCache st"
    by (auto simp: video_flush_def Let_def split: if_splits sum.splits prod.splits)
  with inv show ?thesis by simp
qed

subsection \<open>Keyframe pulling on the first emitting flush\<close>

lemma first_segment_keyed:
  assumes w: "waitForKeyFrame st" and c: "gopCache st = []"
    and idr: "list_ex is_idr (segmentNals st)"
    and fl: "video_flush ext st = Inr (evs, st')"
    and m: "gs \<in> set (video_segments evs)"
  shows "keyed (gs_items gs)"
proof -
  let ?st1 = "st\<lparr> nalUnits := retainedNals st \<rparr>"
  let ?g0 = "groupFramesIntoGops (groupNalsIntoFrames (segmentNals st))"
  let ?li = "lastAUD (retainedNals st) (length (retainedNals st))"
  from idr have ex: "list_ex keyFrame (groupNalsIntoFrames (segmentNals st))"
    by (simp add: frames_keyFrame)
  note shape = gops_shape [OF ex]
  have kext: "keyed (gs_items (extendFirstKeyFrame ?g0))" by (rule extend_keyed [OF shape])
  have c1: "getGopForFusion ?st1 (hd (segmentNals st)) = Inr None"
    using c by (simp add: fusion_empty)
  from fl m have nd: "evs \<noteq> [VideoDone]" by auto
  from fl nd w obtain gs1 p where
    em: "emitSegment ext (?st1\<lparr> waitForKeyFrame := False \<rparr>) ?li gs1 p = Inr (evs, st')"
    and rep: "(case firstFrame ?g0 of None \<Rightarrow> Inl TypeError
               | Some f \<Rightarrow> if \<not> keyFrame f then repairFirstGop ?st1 (hd (segmentNals st)) ?g0
                            else Inr (?g0, 0)) = Inr (gs1, p)"
    by (auto simp: video_flush_def Let_def split: if_splits sum.splits prod.splits)
  have "keyed (gs_items gs1)"
  proof (cases "firstFrame ?g0")
    case None
    with rep show ?thesis by simp
  next
    case (Some f)
    show ?thesis
    proof (cases "keyFrame f")
      case True
      with Some rep have g: "gs1 = ?g0" by simp
      from shape have "keyed (gs_items ?g0)"
      proof
        assume "keyed (gs_items ?g0)" then show ?thesis .
      next
        assume "\<exists>d n rest. gs_items ?g0 = d # n # rest \<and>
            \<not> gop_starts_with_keyframe d \<and> keyed (n # rest)"
        then obtain d n rest where it: "gs_items ?g0 = d # n # rest"
          and nd: "\<not> gop_starts_with_keyframe d" by blast
        from Some it have "g_frames d \<noteq> [] \<and> hd (g_frames d) = f"
          by (auto simp: firstFrame_def split: list.splits)
        with True nd show ?thesis
          by (cases "g_frames d") (simp_all add: gop_starts_with_keyframe_def)
      qed
      with g show ?thesis by simp
    next
      case False
      with Some rep c1 have "gs1 = extendFirstKeyFrame ?g0"
        by (simp add: repairFirstGop_def)
      with kext show ?thesis by simp
    qed
  qed
  from emitSegment_keyed [OF em m this] show ?thesis .
qed

text \<open>A flush that runs with \<^verbatim>\<open>waitForKeyFrame\<close> false does not repair.\<close>

lemma later_segment_as_grouped:
  assumes w: "\<not> waitForKeyFrame st" and al: "gopsToAlignWith st = []"
    and fl: "video_flush ext st = Inr (evs, st')"
    and m: "gs \<in> set (video_segments evs)"
  shows "gs = groupFramesIntoGops (groupNalsIntoFrames (segmentNals st))"
proof -
  let ?st1 = "st\<lparr> nalUnits := retainedNals st \<rparr>"
  let ?g0 = "groupFramesIntoGops (groupNalsIntoFrames (segmentNals st))"
  let ?li = "lastAUD (retainedNals st) (length (retainedNals st))"
  from fl m have nd: "evs \<noteq> [VideoDone]" by auto
  from fl nd w have
    em: "emitSegment ext (?st1\<lparr> waitForKeyFrame := False \<rparr>) ?li ?g0 0 = Inr (evs, st')"
    by (auto simp: video_flush_def Let_def split: if_splits)
  from em al have "video_segments evs = [?g0]"
    by (auto simp: emitSegment_def Let_def split: list.splits)
  with m show ?thesis by simp
qed

text \<open>
  Claim C1, as far as it holds. Take a \<^verbatim>\<open>flush()\<close> that returns, and a \<^verbatim>\<open>data\<close>
  event it triggers. The NAL units of the segment are those from the first access-unit
  delimiter buffered up to, and without, the last one (\<open>segmentNals\<close>:
  \<^verbatim>\<open>this.nalUnits.slice(0, lastIndex)\<close> behind the cut in front of the first
  delimiter).

  \<^item> If \<^verbatim>\<open>waitForKeyFrame\<close> is true (no flush has emitted a segment since the
    constructor or the last \<^verbatim>\<open>reset\<close>; the GOP cache is then empty) and the NAL
    units of the segment hold an IDR slice, the first frame of the event's segment is a
    keyframe: where the first GOP does not start with one, keyframe pulling drops it,
    and the alignment with \<^verbatim>\<open>gopsToAlignWith\<close> only trims whole GOPs from the front.

  \<^item> If \<^verbatim>\<open>waitForKeyFrame\<close> is false and there are no GOPs to align with, nothing
    is repaired: the event carries the GOPs grouped from the NAL units of the segment
    as they are, with no GOP in front and no frame dropped.
\<close>

theorem C1_first_segment_keyframe:
  assumes fl: "video_flush ext st = Inr (evs, st')"
    and m: "gs \<in> set (video_segments evs)"
  shows "(waitForKeyFrame st \<and> gopCache st = [] \<and> list_ex is_idr (segmentNals st) \<longrightarrow>
            (\<exists>f. firstFrame gs = Some f \<and> keyFrame f)) \<and>
         (\<not> waitForKeyFrame st \<and> gopsToAlignWith st = [] \<longrightarrow>
            gs = groupFramesIntoGops (groupNalsIntoFrames (segmentNals st)))"
proof (intro conjI impI)
  assume "waitForKeyFrame st \<and> gopCache st = [] \<and> list_ex is_idr (segmentNals st)"
  then have "keyed (gs_items gs)"
    using first_segment_keyed [of st ext evs st' gs] fl m by blast
  then show "\<exists>f. firstFrame gs = Some f \<and> keyFrame f" by (rule keyed_firstFrame)
next
  assume "\<not> waitForKeyFrame st \<and> gopsToAlignWith st = []"
  then show "gs = groupFramesIntoGops (groupNalsIntoFrames (segmentNals st))"
    using later_segment_as_grouped [of st ext evs st' gs] fl m by blast
qed

text \<open>
  The theorem at two flushes. The first is the first flush of a stream whose segment
  starts with a frame that is no keyframe: the GOPs as grouped start with that frame,
  the flush pulls the keyframe behind it to the front, and the segment of the
  \<^verbatim>\<open>data\<close> event starts with the frame of the IDR slice. The second is the second
  flush of the other example stream, with \<^verbatim>\<open>waitForKeyFrame\<close> false: its \<^verbatim>\<open>data\<close>
  event carries the GOPs as grouped.
\<close>

theorem C1_first_segment_keyframe_witness:
  "waitForKeyFrame example_late \<and> gopCache example_late = [] \<and>
   list_ex is_idr (segmentNals example_late) \<and>
   (\<exists>f0. firstFrame (groupFramesIntoGops (groupNalsIntoFrames (segmentNals example_late))) =
            Some f0 \<and> \<not> keyFrame f0 \<and>
          f_nals f0 = [nalAt access_unit_delimiter_rbsp 0, nalAt other_nal_unit_type 0]) \<and>
   (\<exists>evs st' gs f. video_flush plain_externals example_late = Inr (evs, st') \<and>
      video_segments evs = [gs] \<and> firstFrame gs = Some f \<and> keyFrame f \<and>
      f_nals f = [nalAt access_unit_delimiter_rbsp 1,
                  nalAt slice_layer_without_partitioning_rbsp_idr 1]) \<and>
   waitForKeyFrame example_continued = False \<and> gopsToAlignWith example_continued = [] \<and>
   (\<exists>evs st' gs. video_flush plain_externals example_continued = Inr (evs, st') \<and>
      video_segments evs = [gs] \<and>
      gs = groupFramesIntoGops (groupNalsIntoFrames (segmentNals example_continued)))"
proof -
  have w: "waitForKeyFrame example_late" by code_simp
  have c: "gopCache example_late = []" by code_simp
  have idr: "list_ex is_idr (segmentNals example_late)" by code_simp
  have f0: "case firstFrame (groupFramesIntoGops (groupNalsIntoFrames
                (segmentNals example_late))) of
              Some f0 \<Rightarrow> \<not> keyFrame f0 \<and>
                f_nals f0 = [nalAt access_unit_delimiter_rbsp 0, nalAt other_nal_unit_type 0]
            | None \<Rightarrow> False"
    by code_simp
  have "case video_flush plain_externals example_late of
          Inr (evs, st') \<Rightarrow>
            (case video_segments evs of
               [gs] \<Rightarrow> (case firstFrame gs of
                          Some f \<Rightarrow> f_nals f = [nalAt access_unit_delimiter_rbsp 1,
                                      nalAt slice_layer_without_partitioning_rbsp_idr 1]
                        | None \<Rightarrow> False)
             | _ \<Rightarrow> False)
        | Inl e \<Rightarrow> False"
    by code_simp
  then obtain evs st' gs f where
    fl: "video_flush plain_externals example_late = Inr (evs, st')"
    and seg: "video_segments evs = [gs]" and ff: "firstFrame gs = Some f"
    and nals: "f_nals f = [nalAt access_unit_delimiter_rbsp 1,
                           nalAt slice_layer_without_partitioning_rbsp_idr 1]"
    by (auto split: sum.splits prod.splits list.splits option.splits)
  from seg have m: "gs \<in> set (video_segments evs)" by simp
  from C1_first_segment_keyframe [OF fl m] w c idr ff have kf: "keyFrame f" by auto
  have w2: "waitForKeyFrame example_continued = False" by code_simp
  have al: "gopsToAlignWith example_continued = []" by code_simp
  have "case video_flush plain_externals example_continued of
          Inr (evs, st') \<Rightarrow> (case video_segments evs of [gs] \<Rightarrow> True | _ \<Rightarrow> False)
        | Inl e \<Rightarrow> False"
    by code_simp
  then obtain evs2 st2 gs2 where
    fl2: "video_flush plain_externals example_continued = Inr (evs2, st2)"
    and seg2: "video_segments evs2 = [gs2]"
    by (auto split: sum.splits prod.splits list.splits)
  from seg2 have m2: "gs2 \<in> set (video_segments evs2)" by simp
  from C1_first_segment_keyframe [OF fl2 m2] w2 al
  have g2: "gs2 = groupFramesIntoGops (groupNalsIntoFrames (segmentNals example_continued))"
    by simp
  from f0 have f0': "\<exists>f0. firstFrame (groupFramesIntoGops (groupNalsIntoFrames
        (segmentNals example_late))) = Some f0 \<and> \<not> keyFrame f0 \<and>
      f_nals f0 = [nalAt access_unit_delimiter_rbsp 0, nalAt other_nal_unit_type 0]"
    by (auto split: option.splits)
  have e1: "\<exists>evs st' gs f. video_flush plain_externals example_late = Inr (evs, st') \<and>
      video_segments evs = [gs] \<and> firstFrame gs = Some f \<and> keyFrame f \<and>
      f_nals f = [nalAt access_unit_delimiter_rbsp 1,
                  nalAt slice_layer_without_partitioning_rbsp_idr 1]"
    using fl seg ff kf nals by blast
  have e2: "\<exists>evs st' gs. video_flush plain_externals example_continued = Inr (evs, st') \<and>
      video_segments evs = [gs] \<and>
      gs = groupFramesIntoGops (groupNalsIntoFrames (segmentNals example_continued))"
    using fl2 seg2 g2 by blast
  show ?thesis
    by (intro conjI w c idr f0' e1 w2 al e2)
qed

text \<open>
  The claim itself fails on a later flush. The repair is guarded by
  \<^verbatim>\<open>this.waitForKeyFrame && !gops[0][0].keyFrame\<close>, and the first emitting flush sets
  \<^verbatim>\<open>waitForKeyFrame\<close> to false: after the first example segment has been flushed, the
  second one, which holds no IDR slice, is emitted as it is, and the first frame of its
  \<^verbatim>\<open>data\<close> event is not a keyframe.
\<close>

theorem C1_later_flush_counterexample:
  "\<exists>evs st gs f. example_second_flush = Inr (evs, st) \<and> video_segments evs = [gs] \<and>
     firstFrame gs = Some f \<and> \<not> keyFrame f"
proof -
  have "case example_second_flush of
      Inr (evs, st) \<Rightarrow>
        (case video_segments evs of
           [gs] \<Rightarrow> (case firstFrame gs of Some f \<Rightarrow> \<not> keyFrame f | None \<Rightarrow> False)
         | _ \<Rightarrow> False)
    | Inl e \<Rightarrow> False"
    by code_simp
  then show ?thesis
    by (auto split: sum.splits prod.splits list.splits option.splits)
qed


end
